theory Spec2Isabelle
  imports Main "HOL-Library.Sublist"
begin

section \<open>Python strings\<close>

text \<open>
  The program is \<^verbatim>\<open>pdf_title_renamer.py\<close>. Its strings are Python \<^verbatim>\<open>str\<close> values; here
  they are \<^typ>\<open>string\<close>, one \<^typ>\<open>char\<close> per character. A \<^typ>\<open>char\<close> below 128 is the
  ASCII character of that code. A \<^typ>\<open>char\<close> from 128 up stands for one character outside
  ASCII that is neither white space, nor a digit, nor a cased letter (as the CJK
  characters of the program's two fallback labels are). The character classes below are
  those of \<^verbatim>\<open>str.isspace\<close>, \<^verbatim>\<open>str.isupper\<close>, \<^verbatim>\<open>str.isdigit\<close> and \<^verbatim>\<open>str.lower\<close> on
  such text; the regular expression classes \<^verbatim>\<open>\s\<close> and \<^verbatim>\<open>\d\<close> agree with
  \<^verbatim>\<open>isspace\<close> and \<^verbatim>\<open>isdigit\<close> there.
\<close>

definition isspace :: "char \<Rightarrow> bool" where
  "isspace c = (c \<in> set [CHR 0x09, CHR 0x0A, CHR 0x0B, CHR 0x0C, CHR 0x0D,
                          CHR 0x1C, CHR 0x1D, CHR 0x1E, CHR 0x1F, CHR '' ''])"

definition isupper :: "char \<Rightarrow> bool" where
  "isupper c = (c \<in> set ''ABCDEFGHIJKLMNOPQRSTUVWXYZ'')"

definition isdigit_char :: "char \<Rightarrow> bool" where
  "isdigit_char c = (c \<in> set ''0123456789'')"

definition lower_char :: "char \<Rightarrow> char" where
  "lower_char c =
     (case map_of (zip ''ABCDEFGHIJKLMNOPQRSTUVWXYZ'' ''abcdefghijklmnopqrstuvwxyz'') c of
        Some d \<Rightarrow> d
      | None \<Rightarrow> c)"

text \<open>\<^verbatim>\<open>s.lower()\<close>\<close>

definition lower :: "string \<Rightarrow> string" where
  "lower s = map lower_char s"

text \<open>\<^verbatim>\<open>s.isdigit()\<close>: every character is a digit and there is at least one.\<close>

definition isdigit :: "string \<Rightarrow> bool" where
  "isdigit s = (s \<noteq> [] \<and> list_all isdigit_char s)"

text \<open>\<^verbatim>\<open>s.strip()\<close> and \<^verbatim>\<open>s.strip(chars)\<close>\<close>

definition strip :: "string \<Rightarrow> string" where
  "strip s = rev (dropWhile isspace (rev (dropWhile isspace s)))"

definition strip_chars :: "string \<Rightarrow> string \<Rightarrow> string" where
  "strip_chars chars s =
     rev (dropWhile (\<lambda>c. c \<in> set chars) (rev (dropWhile (\<lambda>c. c \<in> set chars) s)))"

text \<open>
  \<^verbatim>\<open>s.split('\n')\<close>: the pieces between the newlines, empty pieces kept. The result
  is never the empty list, so the last case of the second equation is never taken.
\<close>

fun split_lines :: "string \<Rightarrow> string list" where
  "split_lines [] = [[]]"
| "split_lines (c # cs) =
     (if c = CHR 0x0A then [] # split_lines cs
      else (case split_lines cs of
              l # ls \<Rightarrow> (c # l) # ls
            | [] \<Rightarrow> [[c]]))"

text \<open>\<^verbatim>\<open>s.split()\<close>: the maximal runs of characters that are not white space.\<close>

function split_ws :: "string \<Rightarrow> string list" where
  "split_ws s =
     (case dropWhile isspace s of
        [] \<Rightarrow> []
      | c # cs \<Rightarrow>
          (c # takeWhile (\<lambda>x. \<not> isspace x) cs) # split_ws (dropWhile (\<lambda>x. \<not> isspace x) cs))"
  by pat_completeness auto
termination
proof (relation "measure length")
  show "wf (measure length)" by simp
next
  fix s :: string and c cs
  assume eq: "dropWhile isspace s = c # cs"
  have "length (dropWhile (\<lambda>x. \<not> isspace x) cs) \<le> length cs"
    by (rule length_dropWhile_le)
  moreover have "length (c # cs) \<le> length s"
    using length_dropWhile_le [of isspace s] eq by simp
  ultimately show "(dropWhile (\<lambda>x. \<not> isspace x) cs, s) \<in> measure length"
    by simp
qed

text \<open>\<^verbatim>\<open>sub in s\<close>\<close>

fun contains :: "string \<Rightarrow> string \<Rightarrow> bool" where
  "contains sub [] = (sub = [])"
| "contains sub (c # cs) = (prefix sub (c # cs) \<or> contains sub cs)"

text \<open>\<^verbatim>\<open>s.replace(old, new)\<close> for a one-character \<^verbatim>\<open>old\<close>\<close>

definition replace :: "char \<Rightarrow> string \<Rightarrow> string \<Rightarrow> string" where
  "replace old new s = concat (map (\<lambda>x. if x = old then new else [x]) s)"

text \<open>\<^verbatim>\<open>re.sub(r'\s+', ' ', s)\<close>: every maximal run of white space becomes one blank.\<close>

function collapse_ws :: "string \<Rightarrow> string" where
  "collapse_ws [] = []"
| "collapse_ws (c # cs) =
     (if isspace c then CHR '' '' # collapse_ws (dropWhile isspace cs)
      else c # collapse_ws cs)"
  by pat_completeness auto
termination
  by (relation "measure length") (simp_all add: less_Suc_eq_le length_dropWhile_le)

text \<open>
  \<^verbatim>\<open>re.sub(r'\s*\.\s*', '.', s)\<close>. The scan goes from left to right. At a position the
  pattern matches exactly when the maximal run of white space that starts there is
  followed by a period (a period is not white space, so no shorter run can be followed
  by one); the match then takes the white space after the period as well and is replaced
  by a single period. Where the pattern does not match, the character is copied and the
  scan moves on by one.
\<close>

function sub_dots :: "string \<Rightarrow> string" where
  "sub_dots [] = []"
| "sub_dots (c # cs) =
     (case dropWhile isspace (c # cs) of
        [] \<Rightarrow> c # sub_dots cs
      | d # ds \<Rightarrow>
          if d = CHR ''.'' then CHR ''.'' # sub_dots (dropWhile isspace ds)
          else c # sub_dots cs)"
  by pat_completeness auto
termination
proof (relation "measure length")
  show "wf (measure length)" by simp
next
  fix c :: char and cs
  show "(cs, c # cs) \<in> measure length" by simp
next
  fix c :: char and cs d ds
  assume eq: "dropWhile isspace (c # cs) = d # ds"
  have "length (dropWhile isspace ds) \<le> length ds"
    by (rule length_dropWhile_le)
  moreover have "length (d # ds) \<le> length (c # cs)"
    using length_dropWhile_le [of isspace "c # cs"] eq by simp
  ultimately show "(dropWhile isspace ds, c # cs) \<in> measure length"
    by simp
next
  fix c :: char and cs d ds
  show "(cs, c # cs) \<in> measure length" by simp
qed

text \<open>\<^verbatim>\<open>str(n)\<close> for a natural number: its decimal digits.\<close>

function str_nat :: "nat \<Rightarrow> string" where
  "str_nat n =
     (if n < 10 then [''0123456789'' ! n]
      else str_nat (n div 10) @ [''0123456789'' ! (n mod 10)])"
  by pat_completeness auto
termination
  by (relation "measure id") simp_all

section \<open>Configuration\<close>

text \<open>The constants of \<^verbatim>\<open>class Config\<close> that the modelled functions read.\<close>

definition ILLEGAL_CHARS :: "(char \<times> string) list" where
  "ILLEGAL_CHARS =
     [(CHR ''<'', ''(''), (CHR ''>'', '')''), (CHR '':'', '' -''), (CHR 0x22, ''''),
      (CHR ''/'', ''-''), (CHR 0x5C, ''-''), (CHR ''|'', ''-''), (CHR ''?'', ''''),
      (CHR ''*'', '''')]"

definition MAX_TITLE_LENGTH :: nat where
  "MAX_TITLE_LENGTH = 150"

definition MAX_PAGES_TO_CHECK :: nat where
  "MAX_PAGES_TO_CHECK = 3"

definition TITLE_KEYWORDS :: "string list" where
  "TITLE_KEYWORDS =
     [''research'', ''study'', ''investigation'', ''analysis'', ''method'', ''approach'',
      ''algorithm'', ''model'', ''system'', ''framework'', ''technique'', ''solution'',
      ''theory'', ''design'', ''implementation'', ''evaluation'', ''comparison'']"

definition INSTITUTION_KEYWORDS :: "string list" where
  "INSTITUTION_KEYWORDS =
     [''university'', ''institute'', ''lab'', ''laboratory'', ''school'', ''college'',
      ''department'', ''center'', ''faculty'', ''academy'', ''research'', ''institute of'',
      ''university of'', ''dept.'', ''school of'', ''college of'']"

text \<open>
  The two fallback labels are three and four CJK characters in the source (the label of
  \<^verbatim>\<open>sanitize_filename\<close> for a name that came out empty, and the label of
  \<^verbatim>\<open>generate_paper_filename\<close> for a missing title; their first characters are the
  same). Each character is written as one \<^typ>\<open>char\<close> above 127.
\<close>

definition UNNAMED :: string where
  "UNNAMED = [CHR 0x80, CHR 0x81, CHR 0x82]"

definition UNKNOWN_TITLE :: string where
  "UNKNOWN_TITLE = [CHR 0x80, CHR 0x83, CHR 0x84, CHR 0x86]"

section \<open>Filename sanitizer and builder\<close>

text \<open>
  \<^verbatim>\<open>sanitize_filename\<close>: the illegal characters are replaced one table entry after the
  other, white space is collapsed and stripped, blanks around periods are removed and the
  name is cut to \<^const>\<open>MAX_TITLE_LENGTH\<close> characters (these steps are \<open>clean_name\<close>); a
  name that is empty before or after them, or a single period after them, becomes the
  label.
\<close>

definition replace_illegal :: "string \<Rightarrow> string" where
  "replace_illegal filename = foldl (\<lambda>s (c, r). replace c r s) filename ILLEGAL_CHARS"

definition clean_name :: "string \<Rightarrow> string" where
  "clean_name filename =
     (let f1 = replace_illegal filename;
          f2 = strip (collapse_ws f1);
          f3 = sub_dots f2
      in if length f3 > MAX_TITLE_LENGTH then take MAX_TITLE_LENGTH f3 else f3)"

definition sanitize_filename :: "string \<Rightarrow> string" where
  "sanitize_filename filename =
     (if filename = [] then UNNAMED
      else
        let f = clean_name filename
        in if f = [] \<or> f = ''.'' then UNNAMED else f)"

text \<open>
  \<^verbatim>\<open>generate_paper_filename\<close>. Of its parameters only \<^verbatim>\<open>title\<close> is read; the naming
  format is \<^verbatim>\<open>"{title}"\<close>, so formatting returns the cleaned title.
\<close>

definition generate_paper_filename :: "string option \<Rightarrow> string" where
  "generate_paper_filename title =
     (let title1 = (case title of
                      None \<Rightarrow> UNKNOWN_TITLE
                    | Some t \<Rightarrow> if t = [] \<or> strip t = [] then UNKNOWN_TITLE else t);
          cleaned_title = sanitize_filename (strip title1);
          max_length = MAX_TITLE_LENGTH - 4;
          filename = (if length cleaned_title > max_length
                      then take max_length cleaned_title else cleaned_title)
      in strip_chars ''_'' filename @ ''.pdf'')"

section \<open>Deduplication of generated names\<close>

text \<open>
  \<^verbatim>\<open>s.rfind(c)\<close>, and \<^verbatim>\<open>os.path.splitext\<close> of the standard library (\<^verbatim>\<open>posixpath\<close>): the
  extension starts at the last period of the last path component, unless only periods
  come before it there.
\<close>

definition rfind :: "string \<Rightarrow> char \<Rightarrow> int" where
  "rfind p c =
     (if c \<in> set p then int (length p) - 1 - int (length (takeWhile (\<lambda>x. x \<noteq> c) (rev p)))
      else - 1)"

definition splitext :: "string \<Rightarrow> string \<times> string" where
  "splitext p =
     (let sepIndex = rfind p (CHR ''/'');
          dotIndex = rfind p (CHR ''.'')
      in if dotIndex > sepIndex \<and>
            list_ex (\<lambda>c. c \<noteq> CHR ''.'')
              (take (nat (dotIndex - (sepIndex + 1))) (drop (nat (sepIndex + 1)) p))
         then (take (nat dotIndex) p, drop (nat dotIndex) p)
         else (p, []))"

text \<open>
  The step of \<^verbatim>\<open>process_directory\<close> that counts the generated names.
  \<^verbatim>\<open>global_title_counts\<close> is a \<^verbatim>\<open>defaultdict(int)\<close>: a total function whose value is 0
  where nothing was counted. The step returns the updated counts and the name the
  document is given.
\<close>

definition dedup :: "(string \<Rightarrow> nat) \<Rightarrow> string \<Rightarrow> (string \<Rightarrow> nat) \<times> string" where
  "dedup global_title_counts new_filename =
     (let counts = global_title_counts (new_filename := global_title_counts new_filename + 1)
      in if counts new_filename > 1
         then (case splitext new_filename of
                 (base_name, ext) \<Rightarrow>
                   (counts, base_name @ ''_'' @ str_nat (counts new_filename - 1) @ ext))
         else (counts, new_filename))"

text \<open>
  A run: the generated names of the documents for which a title was found, in the order
  in which they are processed, each passed through the counting step.
\<close>

fun assign_names :: "(string \<Rightarrow> nat) \<Rightarrow> string list \<Rightarrow> string list" where
  "assign_names counts [] = []"
| "assign_names counts (n # ns) =
     (case dedup counts n of (counts', n') \<Rightarrow> n' # assign_names counts' ns)"

section \<open>Title validation and institution lookup\<close>

text \<open>\<^verbatim>\<open>validate_title\<close>\<close>

definition validate_title :: "string \<Rightarrow> bool" where
  "validate_title title =
     (if title = [] \<or> length (strip title) < 5 then False
      else if list_ex (\<lambda>keyword. contains (lower keyword) (lower title)) TITLE_KEYWORDS
      then True
      else 3 \<le> length (split_ws title) \<and> 15 < length title)"

text \<open>
  \<^verbatim>\<open>extract_institution\<close>: the first line that contains an institution keyword, stripped
  and cut to 100 characters.
\<close>

definition extract_institution :: "string \<Rightarrow> string option" where
  "extract_institution text =
     (if text = [] then None
      else (case find (\<lambda>line. list_ex (\<lambda>keyword. contains (lower keyword) (strip (lower line)))
                                INSTITUTION_KEYWORDS)
                 (split_lines text) of
              None \<Rightarrow> None
            | Some line \<Rightarrow> Some (take 100 (strip line))))"

section \<open>Candidate scorer\<close>

text \<open>
  \<^verbatim>\<open>extract_title_from_text\<close>. The considered lines are the stripped lines of the text
  that are longer than 3 characters.
\<close>

definition meaningful_lines :: "string \<Rightarrow> string list" where
  "meaningful_lines text =
     map strip (filter (\<lambda>line. strip line \<noteq> [] \<and> 3 < length (strip line)) (split_lines text))"

text \<open>
  The exclusion test
  \<^verbatim>\<open>re.search(r'\d{4}|vol\.|no\.|pp\.|et al|DOI|http|www|@|email|abstract|introduction', line, re.IGNORECASE)\<close>:
  four digits in a row, or one of the literal markers, letters compared without case.
\<close>

fun four_digits :: "string \<Rightarrow> bool" where
  "four_digits (a # b # c # d # rest) =
     ((isdigit_char a \<and> isdigit_char b \<and> isdigit_char c \<and> isdigit_char d)
      \<or> four_digits (b # c # d # rest))"
| "four_digits _ = False"

definition non_title_marker :: "string \<Rightarrow> bool" where
  "non_title_marker line =
     (four_digits line \<or>
      list_ex (\<lambda>marker. contains marker (lower line))
        [''vol.'', ''no.'', ''pp.'', ''et al'', ''doi'', ''http'', ''www'', ''@'', ''email'',
         ''abstract'', ''introduction''])"

text \<open>The keyword loop of the score: the first keyword found adds 3 and ends the loop.\<close>

fun keyword_loop :: "string list \<Rightarrow> string \<Rightarrow> nat \<Rightarrow> nat" where
  "keyword_loop [] line score = score"
| "keyword_loop (keyword # rest) line score =
     (if contains (lower keyword) (lower line) then score + 3
      else keyword_loop rest line score)"

text \<open>
  The score of a line. The source compares the quotient \<^verbatim>\<open>uppercase / max(len(line), 1)\<close>,
  a float, with 0.2 and 0.8. For the lengths a line of text has, the float comparison and
  the comparison of the exact fractions agree (the quotient is rounded correctly, and a
  fraction with denominator \<open>n\<close> other than 1/5 differs from it by at least \<open>1/(5n)\<close>), so
  the model compares \<open>n < 5u\<close> and \<open>5u < 4n\<close>.
\<close>

definition title_score :: "string \<Rightarrow> nat" where
  "title_score line =
     (let words = split_ws line;
          score1 = (if 15 < length line \<and> length line < 200 then 2 else 0);
          score2 = (if 4 < length words \<and> length words < 30 then score1 + 2 else score1);
          uppercase = length (filter isupper line);
          n = max (length line) 1;
          score3 = (if n < 5 * uppercase \<and> 5 * uppercase < 4 * n then score2 + 1 else score2)
      in keyword_loop TITLE_KEYWORDS line score3)"

text \<open>Strategy 1: the candidates among the lines given, each with its score.\<close>

fun candidate_titles :: "string list \<Rightarrow> (string \<times> nat) list" where
  "candidate_titles [] = []"
| "candidate_titles (line # rest) =
     (if non_title_marker line then candidate_titles rest
      else if 3 \<le> length (split_ws line) \<and> 10 < length line
      then (line, title_score line) # candidate_titles rest
      else candidate_titles rest)"

text \<open>Strategy 2: the first line longer than 15 characters that is not a number.\<close>

fun first_long_line :: "string list \<Rightarrow> string option" where
  "first_long_line [] = None"
| "first_long_line (line # rest) =
     (if 15 < length line \<and> \<not> isdigit line then Some line else first_long_line rest)"

text \<open>
  \<^verbatim>\<open>candidate_titles.sort(key=lambda x: x[1], reverse=True)\<close> is a stable sort by
  descending score: elements of equal score keep their order. \<^const>\<open>sort_key\<close> is stable
  too, and sorts by ascending key, so the key is the negated score. \<open>best_candidate\<close> is
  the first line of the sorted list, and nothing when there is no candidate.
\<close>

definition best_candidate :: "(string \<times> nat) list \<Rightarrow> string option" where
  "best_candidate candidates =
     (case sort_key (\<lambda>x. - int (snd x)) candidates of
        [] \<Rightarrow> None
      | (line, score) # _ \<Rightarrow> Some line)"

definition extract_title_from_text :: "string \<Rightarrow> string option" where
  "extract_title_from_text text =
     (if text = [] then None
      else
        let lines = meaningful_lines text in
        if lines = [] then None
        else (case best_candidate (candidate_titles (take 10 lines)) of
                Some line \<Rightarrow> Some line
              | None \<Rightarrow>
                  (case first_long_line (take 5 lines) of
                     Some line \<Rightarrow> Some line
                   | None \<Rightarrow> (case lines of line # _ \<Rightarrow> Some line | [] \<Rightarrow> None))))"

section \<open>Documents\<close>

text \<open>
  A document is what the two PDF libraries return when the program reads the file. The
  program opens the file up to three times; each read either raises an exception or
  yields data. The exceptions are told apart as the \<^verbatim>\<open>except\<close> clauses do, and carry
  the text of \<^verbatim>\<open>str(e)\<close>. The program is run as a script, so that \<^verbatim>\<open>logger\<close> is set and
  logging changes no result.
\<close>

datatype exc = PdfReadError string | PDFSyntaxError string | OtherException string

text \<open>
  \<^verbatim>\<open>PyPDF2.PdfReader\<close>: whether the file is flagged encrypted, whether
  \<^verbatim>\<open>reader.decrypt('')\<close> raises, and \<^verbatim>\<open>reader.metadata\<close> (an exception, \<^verbatim>\<open>None\<close>, or the
  fields with their values, in the order of the file).
\<close>

record pdf_reader =
  is_encrypted :: bool
  decrypt_raises :: bool
  metadata :: "exc + (string \<times> string) list option"

text \<open>
  A page as \<^verbatim>\<open>pdfplumber\<close> extracts it: the text of the whole page and of the header,
  content and footer boxes (\<^verbatim>\<open>extract_text()\<close> may return \<^verbatim>\<open>None\<close>).
\<close>

record page =
  full_text :: "string option"
  header_text :: "string option"
  content_text :: "string option"
  footer_text :: "string option"

text \<open>
  \<^verbatim>\<open>pypdf_read\<close> is the read of \<^verbatim>\<open>extract_title_from_metadata\<close>. \<^verbatim>\<open>plumber_pages\<close> is the
  read of \<^verbatim>\<open>extract_title_from_content\<close>: the pages of the file with their texts, or the
  exception raised while the file is opened or the first pages are extracted.
  \<^verbatim>\<open>plumber_first_page\<close> is the read of \<^verbatim>\<open>extract_title\<close> after a metadata title was
  found: \<^verbatim>\<open>None\<close> for a file without pages, else the text of the first page.
\<close>

record document =
  pypdf_read :: "exc + pdf_reader"
  plumber_pages :: "exc + page list"
  plumber_first_page :: "exc + string option option"

definition text_or_empty :: "string option \<Rightarrow> string" where
  "text_or_empty t = (case t of None \<Rightarrow> [] | Some s \<Rightarrow> s)"

section \<open>Metadata tier\<close>

fun metadata_handler :: "exc \<Rightarrow> string option \<times> string option" where
  "metadata_handler (PdfReadError m) = (None, Some ''corrupted'')"
| "metadata_handler (PDFSyntaxError m) = (None, Some m)"
| "metadata_handler (OtherException m) = (None, Some m)"

text \<open>The loop over the title fields; \<^verbatim>\<open>md.get(field, '')\<close> is the lookup.\<close>

fun title_field_loop ::
  "(string \<times> string) list \<Rightarrow> string list \<Rightarrow> string option \<times> string option" where
  "title_field_loop md [] = (None, None)"
| "title_field_loop md (field # rest) =
     (let title = (case map_of md field of Some v \<Rightarrow> v | None \<Rightarrow> [])
      in if title \<noteq> [] \<and> strip title \<noteq> [] \<and>
            lower (strip title) \<notin> set ['''', ''untitled'', ''unnamed'', ''no title'']
         then (let cleaned_title = strip title
               in if validate_title cleaned_title \<or> field = ''/Title''
                  then (Some cleaned_title, None)
                  else title_field_loop md rest)
         else title_field_loop md rest)"

definition title_fields :: "string list" where
  "title_fields = [''/Title'', ''/Subject'', ''/Topic'', ''/Keywords'']"

definition extract_title_from_metadata :: "document \<Rightarrow> string option \<times> string option" where
  "extract_title_from_metadata d =
     (case pypdf_read d of
        Inl e \<Rightarrow> metadata_handler e
      | Inr reader \<Rightarrow>
          if is_encrypted reader \<and> decrypt_raises reader then (None, Some ''encrypted'')
          else (case metadata reader of
                  Inl e \<Rightarrow> metadata_handler e
                | Inr None \<Rightarrow> (None, None)
                | Inr (Some md) \<Rightarrow>
                    if md = [] then (None, None) else title_field_loop md title_fields))"

section \<open>Content tier and low-confidence tier\<close>

fun content_handler :: "exc \<Rightarrow> string option \<times> string option \<times> string option" where
  "content_handler (PDFSyntaxError m) = (None, Some ''corrupted'', None)"
| "content_handler (PdfReadError m) = (None, Some m, None)"
| "content_handler (OtherException m) = (None, Some m, None)"

text \<open>
  The dictionary \<^verbatim>\<open>region_texts\<close> after the page loop, as the list of its items in
  insertion order.
\<close>

definition region_texts :: "page list \<Rightarrow> (string \<times> string) list" where
  "region_texts pages =
     (let ps = take (min MAX_PAGES_TO_CHECK (length pages)) pages
      in [(''full'', concat (map (\<lambda>p. text_or_empty (full_text p)) ps)),
          (''header'', concat (map (\<lambda>p. text_or_empty (header_text p)) ps)),
          (''content'', concat (map (\<lambda>p. text_or_empty (content_text p)) ps)),
          (''footer'', concat (map (\<lambda>p. text_or_empty (footer_text p)) ps))])"

definition region :: "(string \<times> string) list \<Rightarrow> string \<Rightarrow> string" where
  "region rt name = (case map_of rt name of Some t \<Rightarrow> t | None \<Rightarrow> [])"

text \<open>
  The four attempts of the content tier, in the order of the source: the first region
  whose scorer result is not empty and passes \<^const>\<open>validate_title\<close>.
\<close>

fun try_regions :: "(string \<times> string) list \<Rightarrow> string list \<Rightarrow> string option" where
  "try_regions rt [] = None"
| "try_regions rt (name # rest) =
     (case extract_title_from_text (region rt name) of
        None \<Rightarrow> try_regions rt rest
      | Some title \<Rightarrow>
          if title \<noteq> [] \<and> validate_title title then Some title else try_regions rt rest)"

text \<open>The pool \<^verbatim>\<open>all_lines\<close> of the low-confidence tier.\<close>

definition pooled_lines :: "(string \<times> string) list \<Rightarrow> string list" where
  "pooled_lines rt =
     concat (map (\<lambda>(name, region_text).
                    if region_text = [] then []
                    else map strip (filter (\<lambda>line. strip line \<noteq> [] \<and> 5 < length (strip line))
                                      (split_lines region_text)))
                 rt)"

text \<open>\<^verbatim>\<open>max(l # ls, key=len)\<close>: the first of the longest.\<close>

fun max_len :: "string \<Rightarrow> string list \<Rightarrow> string" where
  "max_len best [] = best"
| "max_len best (l # ls) = max_len (if length best < length l then l else best) ls"

definition extract_title_from_content ::
  "document \<Rightarrow> string option \<times> string option \<times> string option" where
  "extract_title_from_content d =
     (case plumber_pages d of
        Inl e \<Rightarrow> content_handler e
      | Inr pages \<Rightarrow>
          let rt = region_texts pages in
          (case try_regions rt [''content'', ''full'', ''header'', ''footer''] of
             Some title \<Rightarrow> (Some title, None, extract_institution (region rt ''full''))
           | None \<Rightarrow>
               let all_lines = pooled_lines rt in
               if all_lines \<noteq> [] then
                 (case filter (\<lambda>line. \<not> isdigit line) (take 10 all_lines) of
                    l # ls \<Rightarrow>
                      (Some (max_len l ls), Some ''low_confidence'',
                       extract_institution (region rt ''full''))
                  | [] \<Rightarrow> (None, Some ''no_title_found'', None))
               else (None, Some ''no_title_found'', None)))"

section \<open>Title resolution pipeline\<close>

text \<open>
  \<^verbatim>\<open>extract_title\<close>. Beside its result (title, status, institution) the model returns the
  reads of the file it made, in order: each of the three is one call that opens the file.
\<close>

datatype file_read = MetadataRead | FirstPageRead | RegionRead

definition truthy :: "string option \<Rightarrow> bool" where
  "truthy x = (case x of None \<Rightarrow> False | Some s \<Rightarrow> s \<noteq> [])"

definition first_page_institution :: "document \<Rightarrow> string option" where
  "first_page_institution d =
     (case plumber_first_page d of
        Inl e \<Rightarrow> None
      | Inr None \<Rightarrow> None
      | Inr (Some page_text) \<Rightarrow> extract_institution (text_or_empty page_text))"

definition extract_title_run ::
  "document \<Rightarrow> file_read list \<times> (string option \<times> string \<times> string option)" where
  "extract_title_run d =
     (case extract_title_from_metadata d of
        (metadata_title, metadata_status) \<Rightarrow>
          if metadata_status = Some ''encrypted'' then ([MetadataRead], (None, ''encrypted'', None))
          else if metadata_status = Some ''corrupted''
          then ([MetadataRead], (None, ''corrupted'', None))
          else if truthy metadata_title
          then ([MetadataRead, FirstPageRead],
                (metadata_title, ''metadata'', first_page_institution d))
          else (case extract_title_from_content d of
                  (content_title, content_status, institution) \<Rightarrow>
                    ([MetadataRead, RegionRead],
                     if truthy content_title
                     then (content_title,
                           (if truthy content_status then text_or_empty content_status
                            else ''content''),
                           institution)
                     else (None, ''extraction_failed'', None))))"

definition extract_title :: "document \<Rightarrow> string option \<times> string \<times> string option" where
  "extract_title d = snd (extract_title_run d)"

section \<open>The specification's wording of the metadata tier\<close>

text \<open>
  The value of a metadata field, the placeholder test and the condition under which a
  field wins, as the specification words them: the value is not empty, its stripped form is
  not a placeholder (compared without case), and it passes the validity check or the field
  is the title field.
\<close>

definition field_value :: "(string \<times> string) list \<Rightarrow> string \<Rightarrow> string" where
  "field_value md field = (case map_of md field of Some v \<Rightarrow> v | None \<Rightarrow> [])"

definition placeholder :: "string \<Rightarrow> bool" where
  "placeholder v = (lower (strip v) \<in> set ['''', ''untitled'', ''unnamed'', ''no title''])"

definition field_wins :: "(string \<times> string) list \<Rightarrow> string \<Rightarrow> bool" where
  "field_wins md field =
     (field_value md field \<noteq> [] \<and> \<not> placeholder (field_value md field) \<and>
      (validate_title (strip (field_value md field)) \<or> field = ''/Title''))"

section \<open>The specification's wording of the scorer and of the low-confidence tier\<close>

text \<open>
  The score as the sum of the four criteria, and the pre-filter of the candidate list.
\<close>

definition additive_score :: "string \<Rightarrow> nat" where
  "additive_score line =
     (if 15 < length line \<and> length line < 200 then 2 else 0) +
     (if 4 < length (split_ws line) \<and> length (split_ws line) < 30 then 2 else 0) +
     (if max (length line) 1 < 5 * length (filter isupper line) \<and>
         5 * length (filter isupper line) < 4 * max (length line) 1 then 1 else 0) +
     (if list_ex (\<lambda>keyword. contains (lower keyword) (lower line)) TITLE_KEYWORDS then 3 else 0)"

definition passes_prefilter :: "string \<Rightarrow> bool" where
  "passes_prefilter line = (3 \<le> length (split_ws line) \<and> 10 < length line)"

text \<open>
  The valid candidate of a region text, if it has one; the stripped lines of a text that
  are longer than 5 characters; and the pool of these lines over the regions, in the order
  in which the dictionary of the regions holds them.
\<close>

definition valid_candidate :: "string \<Rightarrow> string option" where
  "valid_candidate text =
     (case extract_title_from_text text of
        None \<Rightarrow> None
      | Some title \<Rightarrow> if title \<noteq> [] \<and> validate_title title then Some title else None)"

definition long_lines :: "string \<Rightarrow> string list" where
  "long_lines text = filter (\<lambda>line. 5 < length line) (map strip (split_lines text))"

definition pool :: "page list \<Rightarrow> string list" where
  "pool pages =
     concat (map (\<lambda>name. long_lines (region (region_texts pages) name))
                 [''full'', ''header'', ''content'', ''footer''])"

section \<open>Example texts\<close>

text \<open>
  A text whose second and third line have the same, highest score; a text whose first line
  holds a title keyword but only two words; a text whose first line is one word of 200
  characters; a text whose first line is shorter than four characters; and a text of two
  lines with fewer than three words each.
\<close>

definition tied_text :: string where
  "tied_text =
     ''aaa bbb cccc\<newline>A Study of Things in Detail\<newline>A Model of Things in Detail''"

definition keyword_text :: string where
  "keyword_text = ''Research ab\<newline>aaa bbb cccc''"

definition long_word_text :: string where
  "long_word_text = replicate 200 (CHR ''x'') @ ''\<newline>aaa bbb cccc''"

definition short_first_text :: string where
  "short_first_text = ''ab\<newline>abcd''"

definition two_word_text :: string where
  "two_word_text = ''ab cdefghijklmnopqrstuvwx\<newline>abcd''"

section \<open>Example documents\<close>

text \<open>
  A document with a title in its metadata, listed after its subject; its text cannot be
  read by \<^verbatim>\<open>extract_title_from_content\<close>.
\<close>

definition titled_document :: document where
  "titled_document =
     \<lparr>pypdf_read = Inr \<lparr>is_encrypted = False, decrypt_raises = False,
                         metadata = Inr (Some [(''/Subject'', ''A Study of Things in Detail''),
                                               (''/Title'', ''  Deep Learning for X  '')])\<rparr>,
      plumber_pages = Inl (OtherException ''not read''),
      plumber_first_page = Inr (Some (Some ''Some University''))\<rparr>"

text \<open>
  An encrypted document whose decryption with the empty password raises, with a title in
  its metadata and a title-like first line.
\<close>

definition locked_document :: document where
  "locked_document =
     \<lparr>pypdf_read = Inr \<lparr>is_encrypted = True, decrypt_raises = True,
                         metadata = Inr (Some [(''/Title'', ''Deep Learning for X'')])\<rparr>,
      plumber_pages = Inr [\<lparr>full_text = Some ''A Study of Things in Detail'', header_text = None,
                             content_text = Some ''A Study of Things in Detail'',
                             footer_text = None\<rparr>],
      plumber_first_page = Inr (Some (Some ''A Study of Things in Detail''))\<rparr>"

text \<open>
  A document without metadata whose only page holds a number and two short words.
\<close>

definition sparse_pages :: "page list" where
  "sparse_pages =
     [\<lparr>full_text = Some ''123456\<newline>abcdefg\<newline>hijklmn'', header_text = None,
       content_text = Some ''abcdefg'', footer_text = None\<rparr>]"

definition sparse_document :: document where
  "sparse_document =
     \<lparr>pypdf_read = Inr \<lparr>is_encrypted = False, decrypt_raises = False, metadata = Inr None\<rparr>,
      plumber_pages = Inr sparse_pages,
      plumber_first_page = Inr (Some (Some ''123456\<newline>abcdefg\<newline>hijklmn''))\<rparr>"

text \<open>A document without metadata whose only page holds a number.\<close>

definition numeric_pages :: "page list" where
  "numeric_pages =
     [\<lparr>full_text = Some ''123456'', header_text = None,
       content_text = Some ''123456'', footer_text = None\<rparr>]"

definition numeric_document :: document where
  "numeric_document =
     \<lparr>pypdf_read = Inr \<lparr>is_encrypted = False, decrypt_raises = False, metadata = Inr None\<rparr>,
      plumber_pages = Inr numeric_pages,
      plumber_first_page = Inr (Some (Some ''123456''))\<rparr>"

section \<open>Normal forms of names\<close>

text \<open>
  Predicates on names for the proofs about the sanitizer. A character is illegal when the
  table replaces it; a name is plain when it has no illegal character; spaced when its
  only white space is single blanks; dotted when no white space stands next to a period;
  trimmed when it neither starts nor ends with white space; tidy when it is plain, spaced
  and dotted and does not start with white space.
\<close>

definition illegal :: "char \<Rightarrow> bool" where
  "illegal c = (c \<in> set (map fst ILLEGAL_CHARS))"

definition plain :: "string \<Rightarrow> bool" where
  "plain s = (\<forall>c\<in>set s. \<not> illegal c)"

definition spaced :: "string \<Rightarrow> bool" where
  "spaced s =
     ((\<forall>c\<in>set s. isspace c \<longrightarrow> c = CHR '' '') \<and>
      successively (\<lambda>a b. \<not> (isspace a \<and> isspace b)) s)"

definition dotted :: "string \<Rightarrow> bool" where
  "dotted s =
     successively (\<lambda>a b. \<not> (isspace a \<and> b = CHR ''.'') \<and> \<not> (a = CHR ''.'' \<and> isspace b)) s"

definition trimmed :: "string \<Rightarrow> bool" where
  "trimmed s = (s = [] \<or> (\<not> isspace (hd s) \<and> \<not> isspace (last s)))"

definition tidy :: "string \<Rightarrow> bool" where
  "tidy s = (plain s \<and> spaced s \<and> dotted s \<and> (s = [] \<or> \<not> isspace (hd s)))"

text \<open>
  A title of 151 characters whose 150th character is a blank, and the punctuation
  characters of ASCII (\<^verbatim>\<open>string.punctuation\<close>).
\<close>

definition long_title :: string where
  "long_title = replicate 149 (CHR ''a'') @ '' b''"

definition punctuation :: string where
  "punctuation =
     ''!'' @ [CHR 0x22] @ ''#$%&'' @ [CHR 0x27] @ ''()*+,-./:;<=>?@['' @ [CHR 0x5C] @ '']^_'' @
     [CHR 0x60] @ ''{|}~''"

section \<open>Evaluation of the recursive string functions\<close>

text \<open>
  The equations of \<^const>\<open>split_ws\<close> and \<^const>\<open>str_nat\<close> rewrite a call into a term that
  holds a call again; they are used by name, not by the simplifier.
\<close>

declare split_ws.simps [simp del]
declare str_nat.simps [simp del]

section \<open>Deduplication: the numeric suffix\<close>

lemma dedup_counts: "fst (dedup counts n) = counts (n := counts n + 1)"
  by (simp add: dedup_def Let_def split: prod.splits)

lemma dedup_name:
  "snd (dedup counts n) =
     (if counts n = 0 then n
      else fst (splitext n) @ ''_'' @ str_nat (counts n) @ snd (splitext n))"
  by (simp add: dedup_def Let_def split: prod.splits)

text \<open>
  In a run that starts from the counts \<open>counts\<close>, the document at position \<open>i\<close> keeps its
  generated name when the name was not counted before, and is given the suffix with the
  number of earlier occurrences otherwise.
\<close>

lemma assign_names_nth:
  "i < length names \<Longrightarrow>
   assign_names counts names ! i =
     (if counts (names ! i) + count_list (take i names) (names ! i) = 0 then names ! i
      else fst (splitext (names ! i)) @ ''_'' @
           str_nat (counts (names ! i) + count_list (take i names) (names ! i)) @
           snd (splitext (names ! i)))"
proof (induction names arbitrary: counts i)
  case Nil
  then show ?case by simp
next
  case (Cons n ns)
  obtain counts' n' where d: "dedup counts n = (counts', n')"
    by (cases "dedup counts n")
  have c': "counts' = counts (n := counts n + 1)"
    using dedup_counts [of counts n] d by simp
  have n': "n' = (if counts n = 0 then n
      else fst (splitext n) @ ''_'' @ str_nat (counts n) @ snd (splitext n))"
    using dedup_name [of counts n] d by simp
  show ?case
  proof (cases i)
    case 0
    then show ?thesis using d n' by simp
  next
    case (Suc j)
    then have j: "j < length ns" using Cons.prems by simp
    have "assign_names counts (n # ns) ! i = assign_names (counts (n := counts n + 1)) ns ! j"
      using Suc d c' by simp
    also have "\<dots> =
      (if (counts (n := counts n + 1)) (ns ! j) + count_list (take j ns) (ns ! j) = 0 then ns ! j
       else fst (splitext (ns ! j)) @ ''_'' @
            str_nat ((counts (n := counts n + 1)) (ns ! j) + count_list (take j ns) (ns ! j)) @
            snd (splitext (ns ! j)))"
      by (rule Cons.IH [OF j])
    also have "\<dots> =
      (if counts ((n # ns) ! i) + count_list (take i (n # ns)) ((n # ns) ! i) = 0 then (n # ns) ! i
       else fst (splitext ((n # ns) ! i)) @ ''_'' @
            str_nat (counts ((n # ns) ! i) + count_list (take i (n # ns)) ((n # ns) ! i)) @
            snd (splitext ((n # ns) ! i)))"
      using Suc by simp
    finally show ?thesis .
  qed
qed

lemma splitext_A: "splitext ''A.pdf'' = (''A'', ''.pdf'')"
  by code_simp



section \<open>Metadata tier\<close>

lemma lower_Nil_iff: "lower s = [] \<longleftrightarrow> s = []"
  by (simp add: lower_def)

text \<open>The loop over the fields returns at the first field that wins.\<close>

lemma title_field_loop_find:
  "title_field_loop md fs =
     (case find (field_wins md) fs of
        None \<Rightarrow> (None, None)
      | Some field \<Rightarrow> (Some (strip (field_value md field)), None))"
proof (induction fs)
  case Nil
  then show ?case by simp
next
  case (Cons f fs)
  show ?case
  proof (cases "field_wins md f")
    case True
    then show ?thesis
      by (auto simp: field_wins_def field_value_def placeholder_def Let_def lower_Nil_iff)
  next
    case False
    then have "title_field_loop md (f # fs) = title_field_loop md fs"
      by (auto simp: field_wins_def field_value_def placeholder_def Let_def lower_Nil_iff)
    then show ?thesis using Cons.IH False by simp
  qed
qed

lemma field_wins_stripped: "field_wins md field \<Longrightarrow> strip (field_value md field) \<noteq> []"
  by (auto simp: field_wins_def placeholder_def lower_Nil_iff)

lemma field_wins_nonempty: "field_wins md field \<Longrightarrow> md \<noteq> []"
  by (auto simp: field_wins_def field_value_def)

text \<open>
  C1. For a document whose metadata can be read (the reader opens, decryption does not
  fail, the metadata are there), the first field in the order title, subject, topic,
  keywords that wins (its value is not empty, its stripped form is not a placeholder, and
  it is valid or is the title field) gives the result: its stripped value with status
  \<^verbatim>\<open>metadata\<close>, and \<^verbatim>\<open>extract_title_from_content\<close> is not called.
\<close>

theorem metadata_tier_first_winning_field:
  assumes "pypdf_read d = Inr reader"
    and "\<not> (is_encrypted reader \<and> decrypt_raises reader)"
    and "metadata reader = Inr (Some md)"
    and "find (field_wins md) [''/Title'', ''/Subject'', ''/Topic'', ''/Keywords''] = Some field"
  shows "extract_title d =
           (Some (strip (field_value md field)), ''metadata'', first_page_institution d) \<and>
         RegionRead \<notin> set (fst (extract_title_run d))"
proof -
  have w: "field_wins md field"
    using assms(4) unfolding find_Some_iff by blast
  have "extract_title_from_metadata d = (Some (strip (field_value md field)), None)"
    using assms field_wins_nonempty [OF w]
    by (simp add: extract_title_from_metadata_def title_field_loop_find title_fields_def)
  then show ?thesis
    using field_wins_stripped [OF w]
    by (simp add: extract_title_def extract_title_run_def truthy_def)
qed

theorem metadata_tier_first_winning_field_witness:
  "extract_title titled_document =
     (Some ''Deep Learning for X'', ''metadata'', Some ''Some University'') \<and>
   RegionRead \<notin> set (fst (extract_title_run titled_document))"
proof -
  let ?md = "[(''/Subject'', ''A Study of Things in Detail''),
              (''/Title'', ''  Deep Learning for X  '')]"
  let ?reader = "\<lparr>is_encrypted = False, decrypt_raises = False, metadata = Inr (Some ?md)\<rparr>"
  have f: "find (field_wins ?md) [''/Title'', ''/Subject'', ''/Topic'', ''/Keywords''] =
             Some ''/Title''"
    by code_simp
  have v: "strip (field_value ?md ''/Title'') = ''Deep Learning for X''"
    by code_simp
  have i: "first_page_institution titled_document = Some ''Some University''"
    by code_simp
  show ?thesis
    using metadata_tier_first_winning_field
            [of titled_document ?reader ?md "''/Title''", OF _ _ _ f] v i
    by (simp add: titled_document_def)
qed

section \<open>Encrypted documents\<close>

lemma metadata_encrypted:
  "pypdf_read d = Inr reader \<Longrightarrow> is_encrypted reader \<Longrightarrow> decrypt_raises reader \<Longrightarrow>
   extract_title_from_metadata d = (None, Some ''encrypted'')"
  by (simp add: extract_title_from_metadata_def)



section \<open>Title and status\<close>

text \<open>
  When \<^verbatim>\<open>extract_title_from_content\<close> returns a title, its status is \<^verbatim>\<open>None\<close> or
  \<^verbatim>\<open>low_confidence\<close>: the exception handlers return no title.
\<close>

lemma content_status:
  assumes "extract_title_from_content d = (t, s, i)" and "truthy t"
  shows "s = None \<or> s = Some ''low_confidence''"
proof (cases "plumber_pages d")
  case (Inl e)
  then show ?thesis using assms
    by (cases e) (auto simp: extract_title_from_content_def truthy_def)
next
  case (Inr pages)
  then show ?thesis using assms
    by (auto simp: extract_title_from_content_def truthy_def Let_def
             split: option.splits list.splits if_splits)
qed

text \<open>
  C5. Whatever the reads of the file yield (data or exceptions), the result of the
  pipeline has a title exactly when its status is \<^verbatim>\<open>metadata\<close>, \<^verbatim>\<open>content\<close> or
  \<^verbatim>\<open>low_confidence\<close>; with every other status the title is absent. A title that is present
  is not the empty string.
\<close>

theorem title_present_iff_status:
  assumes "extract_title d = (title, status, institution)"
  shows "(title \<noteq> None) = (status \<in> {''metadata'', ''content'', ''low_confidence''}) \<and>
         title \<noteq> Some []"
proof -
  obtain mt ms where m: "extract_title_from_metadata d = (mt, ms)"
    by (cases "extract_title_from_metadata d")
  obtain ct cs ci where c: "extract_title_from_content d = (ct, cs, ci)"
    by (cases "extract_title_from_content d") auto
  show ?thesis
  proof (cases "ms = Some ''encrypted'' \<or> ms = Some ''corrupted''")
    case True
    then show ?thesis using assms m
      by (auto simp: extract_title_def extract_title_run_def)
  next
    case False
    note ms = this
    show ?thesis
    proof (cases "truthy mt")
      case True
      then show ?thesis using assms m ms
        by (auto simp: extract_title_def extract_title_run_def truthy_def split: option.splits)
    next
      case False
      note mt = this
      show ?thesis
      proof (cases "truthy ct")
        case True
        from content_status [OF c True] show ?thesis
          using assms m ms mt c True
          by (auto simp: extract_title_def extract_title_run_def truthy_def text_or_empty_def
                   split: option.splits)
      next
        case False
        then show ?thesis using assms m ms mt c
          by (auto simp: extract_title_def extract_title_run_def)
      qed
    qed
  qed
qed

theorem title_present_iff_status_witness:
  "extract_title sparse_document = (Some ''abcdefg'', ''low_confidence'', None) \<and>
   extract_title numeric_document = (None, ''extraction_failed'', None) \<and>
   ''low_confidence'' \<in> {''metadata'', ''content'', ''low_confidence''} \<and>
   ''extraction_failed'' \<notin> {''metadata'', ''content'', ''low_confidence''}"
proof -
  have a: "extract_title sparse_document = (Some ''abcdefg'', ''low_confidence'', None)"
    by code_simp
  have b: "extract_title numeric_document = (None, ''extraction_failed'', None)"
    by code_simp
  show ?thesis
    using a b title_present_iff_status [OF a] title_present_iff_status [OF b] by simp
qed

section \<open>Candidate scorer\<close>

text \<open>The score of the source is the sum of the four criteria.\<close>

lemma keyword_loop_additive:
  "keyword_loop ks line s =
     s + (if list_ex (\<lambda>keyword. contains (lower keyword) (lower line)) ks then 3 else 0)"
  by (induction ks) simp_all

lemma title_score_additive: "title_score line = additive_score line"
  by (simp add: title_score_def additive_score_def Let_def keyword_loop_additive)

text \<open>
  The candidate list holds, in order, the lines given that match no exclusion marker and
  pass the pre-filter, each with its score.
\<close>

lemma candidate_titles_filter:
  "candidate_titles ls =
     map (\<lambda>l. (l, additive_score l))
         (filter (\<lambda>l. \<not> non_title_marker l \<and> passes_prefilter l) ls)"
  by (induction ls) (simp_all add: title_score_additive passes_prefilter_def)

lemma best_candidate_Nil: "best_candidate [] = None"
  by (simp add: best_candidate_def)

text \<open>
  The stable sort by descending score puts first the earliest candidate of maximal score.
\<close>

lemma best_candidate_earliest_maximum:
  assumes "cands \<noteq> []"
  shows "\<exists>before line score after.
           cands = before @ (line, score) # after \<and>
           (\<forall>c\<in>set before. snd c < score) \<and>
           (\<forall>c\<in>set after. snd c \<le> score) \<and>
           best_candidate cands = Some line"
proof -
  let ?f = "\<lambda>x::string \<times> nat. - int (snd x)"
  have "length (sort_key ?f cands) = length cands" by simp
  then have "sort_key ?f cands \<noteq> []" using assms by (metis length_0_conv)
  then obtain y ys where s: "sort_key ?f cands = y # ys"
    by (cases "sort_key ?f cands") auto
  have "sorted (map ?f (sort_key ?f cands))" by (rule sorted_sort_key)
  then have le: "\<forall>z\<in>set ys. ?f y \<le> ?f z" using s by simp
  have "set cands = set (y # ys)" using s by (metis set_sort)
  then have maxi: "\<forall>z\<in>set cands. snd z \<le> snd y" using le by auto
  have "filter (\<lambda>z. ?f z = ?f y) cands = filter (\<lambda>z. ?f z = ?f y) (sort_key ?f cands)"
    by (rule sort_key_stable [symmetric])
  also have "\<dots> = y # filter (\<lambda>z. ?f z = ?f y) ys" using s by simp
  finally obtain us vs where split: "cands = us @ y # vs"
    and us: "\<forall>u\<in>set us. ?f u \<noteq> ?f y"
    unfolding filter_eq_Cons_iff by blast
  have "\<forall>u\<in>set us. snd u < snd y"
  proof
    fix u assume u: "u \<in> set us"
    then have "snd u \<le> snd y" using maxi split by simp
    moreover have "snd u \<noteq> snd y" using us u by auto
    ultimately show "snd u < snd y" by simp
  qed
  moreover have "\<forall>c\<in>set vs. snd c \<le> snd y" using maxi split by simp
  moreover have "best_candidate cands = Some (fst y)"
    using s by (simp add: best_candidate_def split: prod.splits)
  ultimately show ?thesis using split
    by (metis prod.collapse)
qed

lemma meaningful_lines_Nil: "meaningful_lines [] = []"
  by (simp add: meaningful_lines_def strip_def)

text \<open>
  C2, as amended. Among the first 10 considered lines of a region text, the lines that match
  no exclusion marker and pass the pre-filter (at least 3 words, more than 10 characters)
  are the candidates, each scored by the sum of the four criteria. If there is a candidate,
  the scorer returns the earliest candidate of maximal score: every candidate before it
  has a smaller score, every candidate after it has no greater score. The result is a
  function of the text alone.
\<close>

theorem scorer_earliest_maximum:
  assumes "candidate_titles (take 10 (meaningful_lines text)) \<noteq> []"
  shows "candidate_titles (take 10 (meaningful_lines text)) =
           map (\<lambda>l. (l, additive_score l))
               (filter (\<lambda>l. \<not> non_title_marker l \<and> passes_prefilter l)
                       (take 10 (meaningful_lines text))) \<and>
         (\<exists>before line score after.
            candidate_titles (take 10 (meaningful_lines text)) = before @ (line, score) # after \<and>
            (\<forall>c\<in>set before. snd c < score) \<and>
            (\<forall>c\<in>set after. snd c \<le> score) \<and>
            extract_title_from_text text = Some line)"
proof -
  let ?cands = "candidate_titles (take 10 (meaningful_lines text))"
  have ml: "meaningful_lines text \<noteq> []" using assms by auto
  then have t: "text \<noteq> []" using meaningful_lines_Nil by auto
  have ex: "\<And>line. best_candidate ?cands = Some line \<Longrightarrow> extract_title_from_text text = Some line"
    using ml t by (simp add: extract_title_from_text_def Let_def)
  from best_candidate_earliest_maximum [OF assms] ex candidate_titles_filter
  show ?thesis by metis
qed


theorem scorer_earliest_maximum_witness:
  "(candidate_titles (take 10 (meaningful_lines tied_text)) =
           map (\<lambda>l. (l, additive_score l))
               (filter (\<lambda>l. \<not> non_title_marker l \<and> passes_prefilter l)
                       (take 10 (meaningful_lines tied_text))) \<and>
         (\<exists>before line score after.
            candidate_titles (take 10 (meaningful_lines tied_text)) = before @ (line, score) # after \<and>
            (\<forall>c\<in>set before. snd c < score) \<and>
            (\<forall>c\<in>set after. snd c \<le> score) \<and>
            extract_title_from_text tied_text = Some line)) \<and>
   candidate_titles (take 10 (meaningful_lines tied_text)) =
     [(''aaa bbb cccc'', 0), (''A Study of Things in Detail'', 7),
      (''A Model of Things in Detail'', 7)] \<and>
   extract_title_from_text tied_text = Some ''A Study of Things in Detail''"
proof -
  have c: "candidate_titles (take 10 (meaningful_lines tied_text)) =
     [(''aaa bbb cccc'', 0), (''A Study of Things in Detail'', 7),
      (''A Model of Things in Detail'', 7)]"
    by code_simp
  then have ne: "candidate_titles (take 10 (meaningful_lines tied_text)) \<noteq> []"
    by simp
  have e: "extract_title_from_text tied_text = Some ''A Study of Things in Detail''"
    by code_simp
  show ?thesis
    using scorer_earliest_maximum [OF ne] c e by blast
qed

text \<open>
  The claim as stated fails: in \<^const>\<open>keyword_text\<close> the first line matches no exclusion
  marker and the four criteria give it 3 (a title keyword), the second line gets 0, and
  the scorer returns the second line: the first has two words only and is no candidate.
\<close>

theorem scorer_counterexample:
  "take 10 (meaningful_lines keyword_text) = [''Research ab'', ''aaa bbb cccc''] \<and>
   \<not> non_title_marker ''Research ab'' \<and> additive_score ''Research ab'' = 3 \<and>
   \<not> non_title_marker ''aaa bbb cccc'' \<and> additive_score ''aaa bbb cccc'' = 0 \<and>
   extract_title_from_text keyword_text = Some ''aaa bbb cccc''"
  by code_simp

text \<open>
  C10. The line that the scoring stage selects is a candidate; a candidate has at least 3
  words and more than 10 characters and is one of the first 10 considered lines; and a
  considered line is the stripped form of a line of the text and longer than 3 characters.
\<close>

theorem candidates_pass_prefilter:
  "(\<forall>line. best_candidate (candidate_titles (take 10 (meaningful_lines text))) = Some line \<longrightarrow>
       (\<exists>score. (line, score) \<in> set (candidate_titles (take 10 (meaningful_lines text))))) \<and>
   (\<forall>line score. (line, score) \<in> set (candidate_titles (take 10 (meaningful_lines text))) \<longrightarrow>
       3 \<le> length (split_ws line) \<and> 10 < length line \<and>
       line \<in> set (take 10 (meaningful_lines text))) \<and>
   (\<forall>line\<in>set (meaningful_lines text).
       3 < length line \<and> (\<exists>raw\<in>set (split_lines text). line = strip raw))"
proof (intro conjI allI impI ballI)
  fix line
  assume b: "best_candidate (candidate_titles (take 10 (meaningful_lines text))) = Some line"
  then have "candidate_titles (take 10 (meaningful_lines text)) \<noteq> []"
    using best_candidate_Nil by auto
  from best_candidate_earliest_maximum [OF this] b
  show "\<exists>score. (line, score) \<in> set (candidate_titles (take 10 (meaningful_lines text)))"
    by (metis in_set_conv_decomp option.inject)
next
  fix line score
  assume "(line, score) \<in> set (candidate_titles (take 10 (meaningful_lines text)))"
  then show "3 \<le> length (split_ws line)" "10 < length line"
    "line \<in> set (take 10 (meaningful_lines text))"
    by (auto simp: candidate_titles_filter passes_prefilter_def)
next
  fix line
  assume "line \<in> set (meaningful_lines text)"
  then show "3 < length line" "\<exists>raw\<in>set (split_lines text). line = strip raw"
    by (auto simp: meaningful_lines_def)
qed

theorem candidates_pass_prefilter_witness:
  "best_candidate (candidate_titles (take 10 (meaningful_lines tied_text))) =
     Some ''A Study of Things in Detail'' \<and>
   3 \<le> length (split_ws ''A Study of Things in Detail'') \<and>
   10 < length ''A Study of Things in Detail'' \<and>
   ''A Study of Things in Detail'' \<in> set (take 10 (meaningful_lines tied_text))"
proof -
  have b: "best_candidate (candidate_titles (take 10 (meaningful_lines tied_text))) =
     Some ''A Study of Things in Detail''"
    by code_simp
  from candidates_pass_prefilter [of tied_text] b show ?thesis by blast
qed

section \<open>Fallback of the scorer\<close>

lemma first_long_line_find:
  "first_long_line ls = find (\<lambda>l. 15 < length l \<and> \<not> isdigit l) ls"
  by (induction ls) simp_all

text \<open>
  C6, as amended. For a region text none of whose first 10 considered lines is a candidate
  (each matches an exclusion marker or fails the pre-filter), the scorer returns the first
  of the first 5 considered lines that is longer than 15 characters and not purely
  numeric; if there is none, it returns the first considered line, and nothing when the
  text has no considered line.
\<close>

theorem fallback_without_candidates:
  assumes "candidate_titles (take 10 (meaningful_lines text)) = []"
  shows "extract_title_from_text text =
           (case find (\<lambda>l. 15 < length l \<and> \<not> isdigit l) (take 5 (meaningful_lines text)) of
              Some line \<Rightarrow> Some line
            | None \<Rightarrow> (case meaningful_lines text of [] \<Rightarrow> None | line # _ \<Rightarrow> Some line))"
proof (cases "text = []")
  case True
  then show ?thesis by (simp add: extract_title_from_text_def meaningful_lines_Nil)
next
  case False
  then show ?thesis using assms
    by (simp add: extract_title_from_text_def Let_def best_candidate_Nil first_long_line_find
             split: list.splits option.splits)
qed


theorem fallback_without_candidates_witness:
  "candidate_titles (take 10 (meaningful_lines two_word_text)) = [] \<and>
   extract_title_from_text two_word_text = Some ''ab cdefghijklmnopqrstuvwx'' \<and>
   candidate_titles (take 10 (meaningful_lines short_first_text)) = [] \<and>
   extract_title_from_text short_first_text = Some ''abcd''"
proof -
  have a: "candidate_titles (take 10 (meaningful_lines two_word_text)) = []"
    and b: "candidate_titles (take 10 (meaningful_lines short_first_text)) = []"
    by code_simp+
  have fa: "find (\<lambda>l. 15 < length l \<and> \<not> isdigit l) (take 5 (meaningful_lines two_word_text)) =
      Some ''ab cdefghijklmnopqrstuvwx''"
    by code_simp
  have fb: "find (\<lambda>l. 15 < length l \<and> \<not> isdigit l) (take 5 (meaningful_lines short_first_text)) = None"
    and mb: "meaningful_lines short_first_text = [''abcd'']"
    by code_simp+
  show ?thesis
    using fallback_without_candidates [OF a] fallback_without_candidates [OF b] a b fa fb mb
    by simp
qed

text \<open>
  The claim as stated fails twice. In \<^const>\<open>long_word_text\<close> no line scores positively
  (the four criteria give 0 to both lines) and the first line is longer than 15 characters
  and not numeric, yet the scorer returns the second line: it is a candidate, with score
  0, and the fallback is not reached. In \<^const>\<open>short_first_text\<close> there is no candidate and
  no line longer than 15 characters; the first non-empty line is \<^verbatim>\<open>ab\<close>, and the scorer
  returns \<^verbatim>\<open>abcd\<close>, the first considered line.
\<close>

theorem fallback_counterexample:
  "list_all (\<lambda>l. additive_score l = 0) (meaningful_lines long_word_text) \<and>
   find (\<lambda>l. 15 < length l \<and> \<not> isdigit l) (take 5 (meaningful_lines long_word_text)) =
     Some (replicate 200 (CHR ''x'')) \<and>
   extract_title_from_text long_word_text = Some ''aaa bbb cccc'' \<and>
   candidate_titles (take 10 (meaningful_lines short_first_text)) = [] \<and>
   filter (\<lambda>l. l \<noteq> []) (split_lines short_first_text) = [''ab'', ''abcd''] \<and>
   extract_title_from_text short_first_text = Some ''abcd''"
  by code_simp

section \<open>Low-confidence tier\<close>

lemma try_regions_None:
  "try_regions rt names = None \<longleftrightarrow> list_all (\<lambda>name. valid_candidate (region rt name) = None) names"
  by (induction names) (auto simp: valid_candidate_def split: option.splits)

lemma long_lines_Nil: "long_lines [] = []"
  by (simp add: long_lines_def strip_def)

lemma long_lines_eq:
  "map strip (filter (\<lambda>line. strip line \<noteq> [] \<and> 5 < length (strip line)) (split_lines t)) =
   long_lines t"
proof -
  have "(\<lambda>line. strip line \<noteq> [] \<and> 5 < length (strip line)) = (\<lambda>line. 5 < length (strip line))"
    by auto
  then show ?thesis by (simp add: long_lines_def filter_map comp_def)
qed

text \<open>The pool of the source is the pool of the specification.\<close>

lemma pooled_lines_long_lines:
  "pooled_lines rt = concat (map (\<lambda>(name, region_text). long_lines region_text) rt)"
proof -
  have "\<And>t. (if t = [] then [] else long_lines t) = long_lines t"
    by (simp add: long_lines_Nil)
  then show ?thesis
    by (simp add: pooled_lines_def long_lines_eq cong: if_cong)
qed

lemma pooled_lines_pool: "pooled_lines (region_texts pages) = pool pages"
  unfolding pooled_lines_long_lines
  by (simp add: pool_def region_texts_def region_def Let_def)

text \<open>
  \<^const>\<open>max_len\<close> returns the running best itself, when nothing in the list is longer, or
  the earliest element of the list of maximal length, which is then longer than the best.
\<close>

lemma max_len_cases:
  "\<exists>m. max_len best ls = m \<and>
     ((m = best \<and> (\<forall>x\<in>set ls. length x \<le> length best)) \<or>
      (\<exists>before after.
         ls = before @ m # after \<and> length best < length m \<and>
         (\<forall>x\<in>set before. length x < length m) \<and>
         (\<forall>x\<in>set after. length x \<le> length m)))"
proof (induction ls arbitrary: best)
  case Nil
  show ?case by simp
next
  case (Cons a ls)
  show ?case
  proof (cases "length best < length a")
    case True
    then have step: "max_len best (a # ls) = max_len a ls" by simp
    from Cons.IH [of a] obtain m where m: "max_len a ls = m"
      and c: "(m = a \<and> (\<forall>x\<in>set ls. length x \<le> length a)) \<or>
        (\<exists>before after.
           ls = before @ m # after \<and> length a < length m \<and>
           (\<forall>x\<in>set before. length x < length m) \<and>
           (\<forall>x\<in>set after. length x \<le> length m))"
      by blast
    from c show ?thesis
    proof
      assume h: "m = a \<and> (\<forall>x\<in>set ls. length x \<le> length a)"
      have "a # ls = [] @ m # ls" using h by simp
      moreover have "length best < length m" using h True by simp
      moreover have "\<forall>x\<in>set ls. length x \<le> length m" using h by simp
      moreover have "\<forall>x\<in>set ([]::string list). length x < length m" by simp
      ultimately show ?thesis using step m by blast
    next
      assume "\<exists>before after.
           ls = before @ m # after \<and> length a < length m \<and>
           (\<forall>x\<in>set before. length x < length m) \<and>
           (\<forall>x\<in>set after. length x \<le> length m)"
      then obtain before after where ls: "ls = before @ m # after"
        and am: "length a < length m"
        and bf: "\<forall>x\<in>set before. length x < length m"
        and af: "\<forall>x\<in>set after. length x \<le> length m"
        by blast
      have "a # ls = (a # before) @ m # after" using ls by simp
      moreover have "length best < length m" using am True by simp
      moreover have "\<forall>x\<in>set (a # before). length x < length m" using am bf by simp
      ultimately show ?thesis using step m af by blast
    qed
  next
    case False
    then have step: "max_len best (a # ls) = max_len best ls" by simp
    from Cons.IH [of best] obtain m where m: "max_len best ls = m"
      and c: "(m = best \<and> (\<forall>x\<in>set ls. length x \<le> length best)) \<or>
        (\<exists>before after.
           ls = before @ m # after \<and> length best < length m \<and>
           (\<forall>x\<in>set before. length x < length m) \<and>
           (\<forall>x\<in>set after. length x \<le> length m))"
      by blast
    from c show ?thesis
    proof
      assume h: "m = best \<and> (\<forall>x\<in>set ls. length x \<le> length best)"
      then have "\<forall>x\<in>set (a # ls). length x \<le> length best" using False by simp
      then show ?thesis using step m h by blast
    next
      assume "\<exists>before after.
           ls = before @ m # after \<and> length best < length m \<and>
           (\<forall>x\<in>set before. length x < length m) \<and>
           (\<forall>x\<in>set after. length x \<le> length m)"
      then obtain before after where ls: "ls = before @ m # after"
        and bm: "length best < length m"
        and bf: "\<forall>x\<in>set before. length x < length m"
        and af: "\<forall>x\<in>set after. length x \<le> length m"
        by blast
      have "a # ls = (a # before) @ m # after" using ls by simp
      moreover have "\<forall>x\<in>set (a # before). length x < length m" using bm bf False by simp
      ultimately show ?thesis using step m af bm by blast
    qed
  qed
qed

lemma max_len_first_longest:
  "\<exists>before after.
      l # ls = before @ max_len l ls # after \<and>
      (\<forall>x\<in>set before. length x < length (max_len l ls)) \<and>
      (\<forall>x\<in>set after. length x \<le> length (max_len l ls))"
proof -
  from max_len_cases [of l ls] obtain m where m: "max_len l ls = m"
    and c: "(m = l \<and> (\<forall>x\<in>set ls. length x \<le> length l)) \<or>
      (\<exists>before after.
         ls = before @ m # after \<and> length l < length m \<and>
         (\<forall>x\<in>set before. length x < length m) \<and>
         (\<forall>x\<in>set after. length x \<le> length m))"
    by blast
  from c show ?thesis
  proof
    assume h: "m = l \<and> (\<forall>x\<in>set ls. length x \<le> length l)"
    have "l # ls = [] @ m # ls" using h by simp
    moreover have "\<forall>x\<in>set ([]::string list). length x < length m" by simp
    moreover have "\<forall>x\<in>set ls. length x \<le> length m" using h by simp
    ultimately show ?thesis unfolding m by blast
  next
    assume "\<exists>before after.
         ls = before @ m # after \<and> length l < length m \<and>
         (\<forall>x\<in>set before. length x < length m) \<and>
         (\<forall>x\<in>set after. length x \<le> length m)"
    then obtain before after where ls: "ls = before @ m # after"
      and lm: "length l < length m"
      and bf: "\<forall>x\<in>set before. length x < length m"
      and af: "\<forall>x\<in>set after. length x \<le> length m"
      by blast
    have "l # ls = (l # before) @ m # after" using ls by simp
    moreover have "\<forall>x\<in>set (l # before). length x < length m" using lm bf by simp
    ultimately show ?thesis unfolding m using af by blast
  qed
qed

text \<open>
  C4, as amended. For a document whose pages can be read and none of whose regions yields a
  valid candidate, let the remaining lines be the lines that are not purely numeric among
  the first 10 of the pool (the stripped lines longer than 5 characters of all regions).
  If a line remains, the tier returns the earliest of the longest remaining lines with
  status \<^verbatim>\<open>low_confidence\<close>, whether or not it passes the validity check. If none remains
  (the pool is empty, or its first 10 lines are all numeric), the status is
  \<^verbatim>\<open>no_title_found\<close> and there is no title.
\<close>

theorem low_confidence_tier:
  assumes "plumber_pages d = Inr pages"
    and "list_all (\<lambda>name. valid_candidate (region (region_texts pages) name) = None)
           [''content'', ''full'', ''header'', ''footer'']"
    and "remaining = filter (\<lambda>line. \<not> isdigit line) (take 10 (pool pages))"
  shows "(remaining = [] \<and> extract_title_from_content d = (None, Some ''no_title_found'', None)) \<or>
         (\<exists>before title after.
            remaining = before @ title # after \<and>
            (\<forall>x\<in>set before. length x < length title) \<and>
            (\<forall>x\<in>set after. length x \<le> length title) \<and>
            extract_title_from_content d =
              (Some title, Some ''low_confidence'',
               extract_institution (region (region_texts pages) ''full'')))"
proof -
  have t: "try_regions (region_texts pages) [''content'', ''full'', ''header'', ''footer''] = None"
    using assms(2) by (simp only: try_regions_None)
  show ?thesis
  proof (cases remaining)
    case Nil
    then have "extract_title_from_content d = (None, Some ''no_title_found'', None)"
      using assms(1,3)
      by (simp add: extract_title_from_content_def Let_def pooled_lines_pool t
            del: try_regions.simps)
    then show ?thesis using Nil by simp
  next
    case (Cons l ls)
    then have ne: "pool pages \<noteq> []" using assms(3) by auto
    have f: "filter (\<lambda>line. \<not> isdigit line) (take 10 (pool pages)) = l # ls"
      using assms(3) Cons by simp
    have r: "extract_title_from_content d =
      (Some (max_len l ls), Some ''low_confidence'',
       extract_institution (region (region_texts pages) ''full''))"
      using assms(1) ne
      by (simp add: extract_title_from_content_def Let_def pooled_lines_pool t f
            del: try_regions.simps)
    from max_len_first_longest [of l ls] r Cons show ?thesis by metis
  qed
qed

theorem low_confidence_tier_witness:
  "((filter (\<lambda>line. \<not> isdigit line) (take 10 (pool sparse_pages)) = [] \<and>
     extract_title_from_content sparse_document = (None, Some ''no_title_found'', None)) \<or>
    (\<exists>before title after.
       filter (\<lambda>line. \<not> isdigit line) (take 10 (pool sparse_pages)) = before @ title # after \<and>
       (\<forall>x\<in>set before. length x < length title) \<and>
       (\<forall>x\<in>set after. length x \<le> length title) \<and>
       extract_title_from_content sparse_document =
         (Some title, Some ''low_confidence'',
          extract_institution (region (region_texts sparse_pages) ''full'')))) \<and>
   filter (\<lambda>line. \<not> isdigit line) (take 10 (pool sparse_pages)) =
     [''abcdefg'', ''hijklmn'', ''abcdefg''] \<and>
   extract_title_from_content sparse_document = (Some ''abcdefg'', Some ''low_confidence'', None) \<and>
   \<not> validate_title ''abcdefg''"
proof -
  have p: "plumber_pages sparse_document = Inr sparse_pages"
    by (simp add: sparse_document_def)
  have v: "list_all (\<lambda>name. valid_candidate (region (region_texts sparse_pages) name) = None)
             [''content'', ''full'', ''header'', ''footer'']"
    by code_simp
  have r: "filter (\<lambda>line. \<not> isdigit line) (take 10 (pool sparse_pages)) =
             [''abcdefg'', ''hijklmn'', ''abcdefg'']"
    by code_simp
  have e: "extract_title_from_content sparse_document =
             (Some ''abcdefg'', Some ''low_confidence'', None)"
    by code_simp
  have n: "\<not> validate_title ''abcdefg''"
    by code_simp
  from low_confidence_tier [OF p v refl] r e n show ?thesis by blast
qed

text \<open>
  The claim as stated fails: in \<^const>\<open>numeric_document\<close> no region yields a valid candidate
  and the pool is not empty, yet no line is returned and the status is
  \<^verbatim>\<open>no_title_found\<close>, because the lines of the pool are numeric.
\<close>

theorem low_confidence_counterexample:
  "plumber_pages numeric_document = Inr numeric_pages \<and>
   list_all (\<lambda>name. valid_candidate (region (region_texts numeric_pages) name) = None)
            [''content'', ''full'', ''header'', ''footer''] \<and>
   pool numeric_pages = [''123456'', ''123456''] \<and>
   extract_title_from_content numeric_document = (None, Some ''no_title_found'', None)"
  by code_simp

section \<open>Sanitizer: replacement of illegal characters\<close>

lemma replace_append: "replace c r (a @ b) = replace c r a @ replace c r b"
  by (simp add: replace_def)

lemma foldl_replace_append:
  "foldl (\<lambda>s (c, r). replace c r s) (a @ b) tbl =
   foldl (\<lambda>s (c, r). replace c r s) a tbl @ foldl (\<lambda>s (c, r). replace c r s) b tbl"
  by (induction tbl arbitrary: a b) (auto simp: replace_append)

lemma replace_illegal_Cons:
  "replace_illegal (c # s) = replace_illegal [c] @ replace_illegal s"
  using foldl_replace_append [of "[c]" s ILLEGAL_CHARS] by (simp add: replace_illegal_def)

lemma replace_illegal_Nil: "replace_illegal [] = []"
  by (simp add: replace_illegal_def ILLEGAL_CHARS_def replace_def)

lemma illegal_iff:
  "illegal c \<longleftrightarrow>
     c = CHR ''<'' \<or> c = CHR ''>'' \<or> c = CHR '':'' \<or> c = CHR 0x22 \<or> c = CHR ''/'' \<or>
     c = CHR 0x5C \<or> c = CHR ''|'' \<or> c = CHR ''?'' \<or> c = CHR ''*''"
  by (simp add: illegal_def ILLEGAL_CHARS_def)

lemma replace_single: "replace old new [c] = (if c = old then new else [c])"
  by (simp add: replace_def)

lemma replace_illegal_single_id: "\<not> illegal c \<Longrightarrow> replace_illegal [c] = [c]"
  by (simp add: illegal_iff replace_illegal_def ILLEGAL_CHARS_def replace_single)

lemma replace_illegal_single_plain: "plain (replace_illegal [c])"
proof (cases "illegal c")
  case False
  then show ?thesis by (simp add: replace_illegal_single_id plain_def)
next
  case True
  then consider "c = CHR ''<''" | "c = CHR ''>''" | "c = CHR '':''" | "c = CHR 0x22"
    | "c = CHR ''/''" | "c = CHR 0x5C" | "c = CHR ''|''" | "c = CHR ''?''" | "c = CHR ''*''"
    unfolding illegal_iff by blast
  then show ?thesis
    by cases (simp_all add: replace_illegal_def ILLEGAL_CHARS_def replace_def plain_def illegal_iff)
qed

lemma plain_replace_illegal: "plain (replace_illegal s)"
proof (induction s)
  case Nil
  show ?case by (simp add: replace_illegal_Nil plain_def)
next
  case (Cons c s)
  then show ?case
    using replace_illegal_single_plain [of c]
    by (auto simp: replace_illegal_Cons [of c s] plain_def)
qed

lemma replace_illegal_plain: "plain s \<Longrightarrow> replace_illegal s = s"
proof (induction s)
  case Nil
  show ?case by (simp add: replace_illegal_Nil)
next
  case (Cons c s)
  then show ?case
    by (simp add: replace_illegal_Cons [of c s] replace_illegal_single_id plain_def)
qed


lemma isspace_blank: "isspace (CHR '' '')"
  by (simp add: isspace_def)

lemma not_isspace_dot: "\<not> isspace (CHR ''.'')"
  by (simp add: isspace_def)

lemma not_illegal_blank: "\<not> illegal (CHR '' '')"
  by (simp add: illegal_iff)

lemma dropWhile_id: "xs = [] \<or> \<not> P (hd xs) \<Longrightarrow> dropWhile P xs = xs"
  by (cases xs) auto

lemma dropWhile_hd: "dropWhile P xs = [] \<or> \<not> P (hd (dropWhile P xs))"
  using hd_dropWhile by blast

lemma set_collapse_ws: "set (collapse_ws s) \<subseteq> insert (CHR '' '') (set s)"
proof (induction s rule: collapse_ws.induct)
  case 1
  show ?case by simp
next
  case (2 c cs)
  show ?case
  proof (cases "isspace c")
    case True
    have "set (dropWhile isspace cs) \<subseteq> set cs" by (auto dest: set_dropWhileD)
    then show ?thesis using 2(1) [OF True] True by auto
  next
    case False
    then show ?thesis using 2(2) [OF False] by auto
  qed
qed

lemma hd_collapse_ws:
  "s \<noteq> [] \<Longrightarrow> hd (collapse_ws s) = (if isspace (hd s) then CHR '' '' else hd s)"
  by (cases s) auto

lemma spaced_Nil: "spaced []"
  by (simp add: spaced_def)

lemma spaced_Cons:
  "spaced (c # cs) \<longleftrightarrow>
     (isspace c \<longrightarrow> c = CHR '' '') \<and> (cs = [] \<or> \<not> (isspace c \<and> isspace (hd cs))) \<and> spaced cs"
  by (auto simp: spaced_def successively_Cons)

lemma spaced_collapse_ws: "spaced (collapse_ws s)"
proof (induction s rule: collapse_ws.induct)
  case 1
  show ?case by (simp add: spaced_Nil)
next
  case (2 c cs)
  show ?case
  proof (cases "isspace c")
    case True
    let ?t = "dropWhile isspace cs"
    have ih: "spaced (collapse_ws ?t)" using 2(1) [OF True] .
    have "collapse_ws ?t = [] \<or> \<not> isspace (hd (collapse_ws ?t))"
    proof (cases "?t = []")
      case True
      then show ?thesis by (metis collapse_ws.simps(1))
    next
      case False
      then have "\<not> isspace (hd ?t)" using dropWhile_hd [of isspace cs] by blast
      then show ?thesis using hd_collapse_ws [OF False] by simp
    qed
    then show ?thesis using True ih by (auto simp: spaced_Cons)
  next
    case False
    then show ?thesis using 2(2) [OF False] by (simp add: spaced_Cons)
  qed
qed

lemma collapse_ws_spaced: "spaced s \<Longrightarrow> collapse_ws s = s"
proof (induction s)
  case Nil
  show ?case by simp
next
  case (Cons c cs)
  then have sp: "spaced cs" and ih: "collapse_ws cs = cs" by (simp_all add: spaced_Cons)
  show ?case
  proof (cases "isspace c")
    case True
    then have "c = CHR '' ''" and "cs = [] \<or> \<not> isspace (hd cs)"
      using Cons.prems by (auto simp: spaced_Cons)
    then show ?thesis using True ih by (simp add: dropWhile_id)
  next
    case False
    then show ?thesis using ih by simp
  qed
qed

lemma plain_collapse_ws: "plain s \<Longrightarrow> plain (collapse_ws s)"
  using set_collapse_ws [of s] not_illegal_blank by (auto simp: plain_def)

section \<open>Sanitizer: stripping\<close>

lemma strip_infix: "\<exists>a b. s = a @ strip s @ b"
proof -
  let ?t = "dropWhile isspace s"
  let ?u = "dropWhile isspace (rev ?t)"
  have "?t = rev (rev ?t)" by simp
  also have "\<dots> = rev (takeWhile isspace (rev ?t) @ ?u)"
    by (simp only: takeWhile_dropWhile_id)
  also have "\<dots> = rev ?u @ rev (takeWhile isspace (rev ?t))"
    by (rule rev_append)
  finally have t: "?t = strip s @ rev (takeWhile isspace (rev ?t))"
    by (simp only: strip_def)
  have "s = takeWhile isspace s @ ?t"
    by (simp only: takeWhile_dropWhile_id)
  then have "s = takeWhile isspace s @ strip s @ rev (takeWhile isspace (rev ?t))"
    using t by metis
  then show ?thesis by blast
qed

lemma spaced_append: "spaced (a @ b) \<Longrightarrow> spaced a \<and> spaced b"
  by (auto simp: spaced_def successively_append_iff)

lemma dotted_append: "dotted (a @ b) \<Longrightarrow> dotted a \<and> dotted b"
  by (auto simp: dotted_def successively_append_iff)

lemma plain_append: "plain (a @ b) \<longleftrightarrow> plain a \<and> plain b"
  by (auto simp: plain_def)

lemma spaced_strip: "spaced s \<Longrightarrow> spaced (strip s)"
  using strip_infix [of s] spaced_append by metis

lemma plain_strip: "plain s \<Longrightarrow> plain (strip s)"
  using strip_infix [of s] plain_append by metis

lemma trimmed_strip: "trimmed (strip s)"
proof (cases "strip s = []")
  case True
  then show ?thesis by (simp add: trimmed_def)
next
  case False
  let ?t = "dropWhile isspace s"
  let ?u = "dropWhile isspace (rev ?t)"
  have u: "?u \<noteq> []" using False by (simp add: strip_def)
  then have hu: "\<not> isspace (hd ?u)" using dropWhile_hd [of isspace "rev ?t"] by blast
  have l: "last (strip s) = hd ?u" using u by (simp add: strip_def last_rev)
  have t: "?t \<noteq> []" using u by (metis dropWhile.simps(1) rev.simps(1))
  then have ht: "\<not> isspace (hd ?t)" using dropWhile_hd [of isspace s] by blast
  have "rev ?t = takeWhile isspace (rev ?t) @ ?u" by simp
  then have "last (rev ?t) = last ?u" using u by (metis last_appendR)
  then have "hd ?t = last ?u" using t by (simp add: last_rev)
  then have h: "hd (strip s) = hd ?t" using u by (simp add: strip_def hd_rev)
  show ?thesis using False hu l ht h by (simp add: trimmed_def)
qed

lemma strip_trimmed: "trimmed s \<Longrightarrow> strip s = s"
proof (cases "s = []")
  case True
  then show ?thesis by (simp add: strip_def)
next
  case False
  assume "trimmed s"
  then have h: "\<not> isspace (hd s)" and l: "\<not> isspace (last s)"
    using False by (simp_all add: trimmed_def)
  have a: "dropWhile isspace s = s" using h by (simp add: dropWhile_id)
  have "hd (rev s) = last s" using False by (simp add: hd_rev)
  then have "dropWhile isspace (rev s) = rev s" using l by (simp add: dropWhile_id)
  then show ?thesis using a by (simp add: strip_def)
qed

lemma length_strip: "length (strip s) \<le> length s"
proof -
  have "length (strip s) \<le> length (dropWhile isspace s)"
    unfolding strip_def using length_dropWhile_le [of isspace "rev (dropWhile isspace s)"]
    by simp
  then show ?thesis using length_dropWhile_le [of isspace s] by simp
qed

section \<open>Sanitizer: blanks around periods\<close>

lemma sub_dots_dot: "sub_dots (CHR ''.'' # cs) = CHR ''.'' # sub_dots (dropWhile isspace cs)"
  by (simp add: not_isspace_dot)

lemma sub_dots_other:
  "\<not> isspace c \<Longrightarrow> c \<noteq> CHR ''.'' \<Longrightarrow> sub_dots (c # cs) = c # sub_dots cs"
  by simp

lemma sub_dots_space_dot:
  "isspace c \<Longrightarrow> dropWhile isspace cs = CHR ''.'' # ds \<Longrightarrow>
   sub_dots (c # cs) = CHR ''.'' # sub_dots (dropWhile isspace ds)"
  by simp

lemma sub_dots_space_other:
  "isspace c \<Longrightarrow> dropWhile isspace cs = d # ds \<Longrightarrow> d \<noteq> CHR ''.'' \<Longrightarrow>
   sub_dots (c # cs) = c # sub_dots cs"
  by simp

lemma sub_dots_Nil_iff: "sub_dots s = [] \<longleftrightarrow> s = []"
  by (cases s) (auto split: list.splits)

lemma hd_sub_dots_not_space:
  assumes "s \<noteq> []" and "\<not> isspace (hd s)"
  shows "\<not> isspace (hd (sub_dots s))"
proof -
  obtain c cs where s: "s = c # cs" using assms(1) by (cases s) auto
  then have c: "\<not> isspace c" using assms(2) by simp
  show ?thesis
  proof (cases "c = CHR ''.''")
    case True
    then show ?thesis using s by (simp add: sub_dots_dot not_isspace_dot del: sub_dots.simps)
  next
    case False
    then show ?thesis using s c by (simp add: sub_dots_other del: sub_dots.simps)
  qed
qed

lemma dotted_Nil: "dotted []"
  by (simp add: dotted_def)

lemma dotted_Cons:
  "dotted (c # cs) \<longleftrightarrow>
     (cs = [] \<or> (\<not> (isspace c \<and> hd cs = CHR ''.'') \<and> \<not> (c = CHR ''.'' \<and> isspace (hd cs)))) \<and>
     dotted cs"
  by (auto simp: dotted_def successively_Cons)

lemma spaced_dropWhile: "spaced s \<Longrightarrow> spaced (dropWhile P s)"
  using spaced_append [of "takeWhile P s" "dropWhile P s"] by simp

lemma last_dropWhile: "dropWhile P xs \<noteq> [] \<Longrightarrow> last (dropWhile P xs) = last xs"
  by (metis last_appendR takeWhile_dropWhile_id)


lemma set_sub_dots: "set (sub_dots s) \<subseteq> set s"
proof (induction s rule: sub_dots.induct)
  case 1
  show ?case by simp
next
  case (2 c cs)
  show ?case
  proof (cases "dropWhile isspace (c # cs)")
    case Nil
    then have "sub_dots (c # cs) = c # sub_dots cs" by (simp del: dropWhile_eq_Nil_conv)
    then show ?thesis using 2(1) [OF Nil] by auto
  next
    case (Cons d ds)
    have sub: "set (d # ds) \<subseteq> set (c # cs)"
      using Cons set_dropWhileD [of _ isspace "c # cs"] by (metis subsetI)
    show ?thesis
    proof (cases "d = CHR ''.''")
      case True
      then have r: "sub_dots (c # cs) = CHR ''.'' # sub_dots (dropWhile isspace ds)"
        using Cons by simp
      have "set (dropWhile isspace ds) \<subseteq> set ds"
        using set_dropWhileD [of _ isspace ds] by (metis subsetI)
      then have "set (sub_dots (dropWhile isspace ds)) \<subseteq> set (d # ds)"
        using 2(2) [OF Cons True] by auto
      then show ?thesis using r True sub by auto
    next
      case False
      then have "sub_dots (c # cs) = c # sub_dots cs" using Cons by simp
      then show ?thesis using 2(3) [OF Cons False] by auto
    qed
  qed
qed

lemma plain_sub_dots: "plain s \<Longrightarrow> plain (sub_dots s)"
  using set_sub_dots [of s] by (auto simp: plain_def)

lemma last_sub_dots_not_space:
  "s \<noteq> [] \<Longrightarrow> \<not> isspace (last s) \<Longrightarrow> \<not> isspace (last (sub_dots s))"
proof (induction s rule: sub_dots.induct)
  case 1
  then show ?case by simp
next
  case (2 c cs)
  show ?case
  proof (cases "dropWhile isspace (c # cs)")
    case Nil
    then have "\<forall>x\<in>set (c # cs). isspace x" by (simp only: dropWhile_eq_Nil_conv)
    then have "isspace (last (c # cs))" using last_in_set [of "c # cs"] by blast
    then show ?thesis using 2(5) by simp
  next
    case (Cons d ds)
    have l: "last (d # ds) = last (c # cs)"
      using Cons last_dropWhile [of isspace "c # cs"] by simp
    show ?thesis
    proof (cases "d = CHR ''.''")
      case True
      then have r: "sub_dots (c # cs) = CHR ''.'' # sub_dots (dropWhile isspace ds)"
        using Cons by simp
      show ?thesis
      proof (cases "dropWhile isspace ds = []")
        case True
        then have "sub_dots (dropWhile isspace ds) = []" by (simp only: sub_dots.simps(1))
        then show ?thesis using r by (simp add: not_isspace_dot)
      next
        case False
        then have "ds \<noteq> []" by (metis dropWhile.simps(1))
        then have "last (dropWhile isspace ds) = last (c # cs)"
          using l last_dropWhile [OF False] by simp
        then have "\<not> isspace (last (sub_dots (dropWhile isspace ds)))"
          using 2(2) [OF Cons True False] 2(5) by simp
        moreover have "sub_dots (dropWhile isspace ds) \<noteq> []"
          using False sub_dots_Nil_iff by blast
        ultimately show ?thesis using r by simp
      qed
    next
      case False
      then have r: "sub_dots (c # cs) = c # sub_dots cs" using Cons by simp
      show ?thesis
      proof (cases "cs = []")
        case True
        then show ?thesis using r 2(5) by simp
      next
        case False
        note ne = this
        then have "\<not> isspace (last cs)" using 2(5) by simp
        then have "\<not> isspace (last (sub_dots cs))"
          using 2(3) [OF Cons \<open>d \<noteq> CHR ''.''\<close> ne] by simp
        moreover have "sub_dots cs \<noteq> []" using ne sub_dots_Nil_iff by blast
        ultimately show ?thesis using r by simp
      qed
    qed
  qed
qed


text \<open>On a spaced name the substitution leaves no white space next to a period.\<close>

lemma spaced_dotted_sub_dots: "spaced s \<Longrightarrow> spaced (sub_dots s) \<and> dotted (sub_dots s)"
proof (induction s rule: sub_dots.induct)
  case 1
  show ?case by (simp add: spaced_Nil dotted_Nil)
next
  case (2 c cs)
  have sp: "spaced (c # cs)" by fact
  then have spcs: "spaced cs" by (simp add: spaced_Cons)
  have after_dot: "spaced (CHR ''.'' # sub_dots t) \<and> dotted (CHR ''.'' # sub_dots t)"
    if t: "t = dropWhile isspace u" and ih: "spaced (sub_dots t) \<and> dotted (sub_dots t)"
    for t u
  proof (cases "t = []")
    case True
    then have "sub_dots t = []" by simp
    then show ?thesis by (simp add: spaced_Cons dotted_Cons not_isspace_dot spaced_Nil dotted_Nil)
  next
    case False
    then have "\<not> isspace (hd t)" using dropWhile_hd [of isspace u] t by blast
    then have "\<not> isspace (hd (sub_dots t))" using hd_sub_dots_not_space [OF False] by simp
    then show ?thesis using ih by (simp add: spaced_Cons dotted_Cons not_isspace_dot)
  qed
  show ?case
  proof (cases "isspace c")
    case False
    note c = this
    then have dw: "dropWhile isspace (c # cs) = c # cs" by simp
    show ?thesis
    proof (cases "c = CHR ''.''")
      case True
      have "spaced (dropWhile isspace cs)" using spcs by (rule spaced_dropWhile)
      then have ih: "spaced (sub_dots (dropWhile isspace cs)) \<and>
          dotted (sub_dots (dropWhile isspace cs))"
        using 2(2) [OF dw True] by simp
      show ?thesis
        using after_dot [OF refl ih] True by (simp only: sub_dots_dot)
    next
      case False
      have ih: "spaced (sub_dots cs) \<and> dotted (sub_dots cs)"
        using 2(3) [OF dw False] spcs by simp
      then show ?thesis
        using c False by (simp add: sub_dots_other spaced_Cons dotted_Cons del: sub_dots.simps)
    qed
  next
    case True
    note c = this
    then have cdot: "c \<noteq> CHR ''.''" using not_isspace_dot by auto
    have cblank: "c = CHR '' ''" using sp c by (simp add: spaced_Cons)
    show ?thesis
    proof (cases cs)
      case Nil
      then have "sub_dots (c # cs) = [c]" using c by simp
      then show ?thesis using cblank by (simp add: spaced_Cons dotted_Cons spaced_Nil dotted_Nil)
    next
      case (Cons d ds)
      then have d: "\<not> isspace d" using sp c by (simp add: spaced_Cons)
      then have dw: "dropWhile isspace (c # cs) = d # ds" using c Cons by simp
      have dw': "dropWhile isspace cs = d # ds" using d Cons by simp
      show ?thesis
      proof (cases "d = CHR ''.''")
        case True
        have "spaced ds" using spcs Cons by (simp add: spaced_Cons)
        then have "spaced (dropWhile isspace ds)" by (rule spaced_dropWhile)
        then have ih: "spaced (sub_dots (dropWhile isspace ds)) \<and>
            dotted (sub_dots (dropWhile isspace ds))"
          using 2(2) [OF dw True] by simp
        have "sub_dots (c # cs) = CHR ''.'' # sub_dots (dropWhile isspace ds)"
          using sub_dots_space_dot [OF c] dw' True by simp
        then show ?thesis using after_dot [OF refl ih] by simp
      next
        case False
        have ih: "spaced (sub_dots cs) \<and> dotted (sub_dots cs)"
          using 2(3) [OF dw False] spcs by simp
        have r: "sub_dots (c # cs) = c # sub_dots cs"
          using sub_dots_space_other [OF c dw' False] .
        have h: "sub_dots cs = d # sub_dots ds"
          using Cons d False by (simp add: sub_dots_other del: sub_dots.simps)
        show ?thesis
          using ih cblank d False cdot unfolding r h
          by (simp add: spaced_Cons dotted_Cons)
      qed
    qed
  qed
qed

text \<open>A name that is spaced and has no white space next to a period is left as it is.\<close>

lemma sub_dots_dotted: "spaced s \<Longrightarrow> dotted s \<Longrightarrow> sub_dots s = s"
proof (induction s)
  case Nil
  show ?case by simp
next
  case (Cons c cs)
  then have ih: "sub_dots cs = cs" by (simp add: spaced_Cons dotted_Cons)
  show ?case
  proof (cases "isspace c")
    case False
    show ?thesis
    proof (cases "c = CHR ''.''")
      case True
      then have "cs = [] \<or> \<not> isspace (hd cs)" using Cons.prems(2) by (auto simp: dotted_Cons)
      then have "dropWhile isspace cs = cs" by (rule dropWhile_id)
      then show ?thesis using True ih by (simp only: sub_dots_dot)
    next
      case c: False
      show ?thesis using sub_dots_other [OF False c] ih by simp
    qed
  next
    case True
    show ?thesis
    proof (cases cs)
      case Nil
      then show ?thesis using True by simp
    next
      case (Cons d ds)
      then have d: "\<not> isspace d" using True Cons.prems(1) \<open>spaced (c # cs)\<close>
        by (simp add: spaced_Cons)
      have dd: "d \<noteq> CHR ''.''" using True Cons \<open>dotted (c # cs)\<close> by (auto simp: dotted_Cons)
      have "dropWhile isspace cs = d # ds" using d Cons by simp
      from sub_dots_space_other [OF True this dd] ih show ?thesis by simp
    qed
  qed
qed

section \<open>Sanitizer: idempotence\<close>

lemma tidy_cleaned:
  "tidy (sub_dots (strip (collapse_ws (replace_illegal s)))) \<and>
   trimmed (sub_dots (strip (collapse_ws (replace_illegal s))))"
proof -
  let ?t = "strip (collapse_ws (replace_illegal s))"
  have p: "plain ?t"
    by (intro plain_strip plain_collapse_ws plain_replace_illegal)
  have sp: "spaced ?t"
    by (intro spaced_strip spaced_collapse_ws)
  have tr: "trimmed ?t" by (rule trimmed_strip)
  have tr': "trimmed (sub_dots ?t)"
  proof (cases "?t = []")
    case True
    then have "sub_dots ?t = []" by (simp only: sub_dots.simps(1))
    then show ?thesis by (simp add: trimmed_def)
  next
    case False
    then have "\<not> isspace (hd ?t)" and "\<not> isspace (last ?t)"
      using tr by (simp_all add: trimmed_def)
    then show ?thesis
      using hd_sub_dots_not_space [OF False] last_sub_dots_not_space [OF False]
      by (simp add: trimmed_def)
  qed
  then have "sub_dots ?t = [] \<or> \<not> isspace (hd (sub_dots ?t))"
    by (auto simp: trimmed_def)
  then show ?thesis
    using plain_sub_dots [OF p] spaced_dotted_sub_dots [OF sp] tr'
    by (simp add: tidy_def)
qed

lemma tidy_take: "tidy s \<Longrightarrow> tidy (take n s)"
proof -
  assume t: "tidy s"
  have s: "s = take n s @ drop n s" by simp
  have "plain (take n s)" using t s plain_append by (metis tidy_def)
  moreover have "spaced (take n s)" using t s spaced_append by (metis tidy_def)
  moreover have "dotted (take n s)" using t s dotted_append by (metis tidy_def)
  moreover have "take n s = [] \<or> \<not> isspace (hd (take n s))"
  proof (cases "take n s = []")
    case True
    then show ?thesis by simp
  next
    case False
    then have "hd (take n s) = hd s" by (metis hd_append2 s)
    moreover have "s \<noteq> []" using False by auto
    ultimately show ?thesis using t by (simp add: tidy_def)
  qed
  ultimately show ?thesis by (simp add: tidy_def)
qed

lemma tidy_clean_name: "tidy (clean_name s)"
  using tidy_cleaned [of s] tidy_take
  by (simp add: clean_name_def Let_def)

lemma length_clean_name: "length (clean_name s) \<le> MAX_TITLE_LENGTH"
  by (simp add: clean_name_def Let_def)

text \<open>
  The cleaning steps leave a tidy name of at most 150 characters as it is, up to white
  space at its end.
\<close>

lemma clean_name_tidy:
  assumes "tidy f" and "length f \<le> MAX_TITLE_LENGTH"
  shows "clean_name f = strip f"
proof -
  have r: "replace_illegal f = f" using assms(1) by (simp add: tidy_def replace_illegal_plain)
  have c: "collapse_ws f = f" using assms(1) by (simp add: tidy_def collapse_ws_spaced)
  obtain a b where ab: "f = a @ strip f @ b" using strip_infix by blast
  have "spaced (strip f)" using assms(1) by (simp add: tidy_def spaced_strip)
  moreover have "dotted (strip f)" using assms(1) ab dotted_append by (metis tidy_def)
  ultimately have d: "sub_dots (strip f) = strip f" by (rule sub_dots_dotted)
  have "length (strip f) \<le> MAX_TITLE_LENGTH" using length_strip [of f] assms(2) by simp
  then show ?thesis using r c d by (simp add: clean_name_def Let_def)
qed

lemma tidy_trimmed_iff:
  assumes "tidy f" and "f \<noteq> []"
  shows "trimmed f \<longleftrightarrow> last f \<noteq> CHR '' ''"
proof -
  have h: "\<not> isspace (hd f)" using assms by (simp add: tidy_def)
  have "last f \<in> set f" using assms(2) by simp
  then have "isspace (last f) \<longleftrightarrow> last f = CHR '' ''"
    using assms(1) isspace_blank by (auto simp: tidy_def spaced_def)
  then show ?thesis using h assms(2) by (simp add: trimmed_def)
qed

lemma sanitize_UNNAMED: "sanitize_filename UNNAMED = UNNAMED"
  by code_simp

lemma last_UNNAMED: "last UNNAMED \<noteq> CHR '' ''"
  by (simp add: UNNAMED_def)

lemma sanitize_cases:
  "sanitize_filename s = UNNAMED \<or>
   (sanitize_filename s = clean_name s \<and> clean_name s \<noteq> [] \<and> clean_name s \<noteq> ''.'')"
  by (simp add: sanitize_filename_def Let_def)

text \<open>
  C7, as amended. Sanitizing the sanitizer's output yields that same output exactly when
  the output does not end in a blank. (The output is stripped before it is cut to 150
  characters, so it ends in a blank only when the cut falls right after a blank.)
\<close>

theorem sanitize_idempotent_iff:
  "sanitize_filename (sanitize_filename s) = sanitize_filename s \<longleftrightarrow>
   last (sanitize_filename s) \<noteq> CHR '' ''"
proof (cases "sanitize_filename s = UNNAMED")
  case True
  then show ?thesis using sanitize_UNNAMED last_UNNAMED by simp
next
  case False
  let ?f = "clean_name s"
  have f: "sanitize_filename s = ?f" and ne: "?f \<noteq> []" and nd: "?f \<noteq> ''.''"
    using sanitize_cases [of s] False by auto
  have t: "tidy ?f" by (rule tidy_clean_name)
  have len: "length ?f \<le> MAX_TITLE_LENGTH" by (rule length_clean_name)
  have cl: "clean_name ?f = strip ?f" using t len by (rule clean_name_tidy)
  show ?thesis
  proof (cases "last ?f = CHR '' ''")
    case False
    then have "trimmed ?f" using tidy_trimmed_iff [OF t ne] by simp
    then have "strip ?f = ?f" by (rule strip_trimmed)
    then have "sanitize_filename ?f = ?f"
      using cl ne nd by (simp add: sanitize_filename_def Let_def)
    then show ?thesis using f False by simp
  next
    case True
    then have nt: "\<not> trimmed ?f" using tidy_trimmed_iff [OF t ne] by simp
    have "strip ?f \<noteq> ?f" using nt trimmed_strip [of ?f] by auto
    moreover have "UNNAMED \<noteq> ?f" using True last_UNNAMED by auto
    ultimately have "sanitize_filename ?f \<noteq> ?f"
      using cl ne by (auto simp: sanitize_filename_def Let_def)
    then show ?thesis using f True by simp
  qed
qed

text \<open>
  The claim as stated fails: the sanitized form of \<^const>\<open>long_title\<close> is 149 letters and
  a blank, and sanitizing it again strips the blank.
\<close>

theorem sanitize_idempotent_counterexample:
  "sanitize_filename long_title = replicate 149 (CHR ''a'') @ '' '' \<and>
   sanitize_filename (sanitize_filename long_title) = replicate 149 (CHR ''a'') \<and>
   sanitize_filename (sanitize_filename long_title) \<noteq> sanitize_filename long_title"
  by code_simp

theorem sanitize_idempotent_iff_witness:
  "last (sanitize_filename ''  Deep: Learning . for / X?  '') \<noteq> CHR '' '' \<and>
   sanitize_filename ''  Deep: Learning . for / X?  '' = ''Deep - Learning.for - X'' \<and>
   sanitize_filename (sanitize_filename ''  Deep: Learning . for / X?  '') =
     sanitize_filename ''  Deep: Learning . for / X?  ''"
proof -
  have e: "sanitize_filename ''  Deep: Learning . for / X?  '' = ''Deep - Learning.for - X''"
    by code_simp
  then have l: "last (sanitize_filename ''  Deep: Learning . for / X?  '') \<noteq> CHR '' ''"
    by simp
  show ?thesis
    using sanitize_idempotent_iff [of "''  Deep: Learning . for / X?  ''"] e l by blast
qed

section \<open>Fallback labels\<close>

lemma strip_chars_UNNAMED: "strip_chars ''_'' UNNAMED = UNNAMED"
  by code_simp

lemma generate_unknown: "generate_paper_filename None = UNKNOWN_TITLE @ ''.pdf''"
  by code_simp

lemma generate_blank:
  assumes "strip t = []"
  shows "generate_paper_filename (Some t) = UNKNOWN_TITLE @ ''.pdf''"
proof -
  have "generate_paper_filename (Some t) = generate_paper_filename None"
    using assms by (simp add: generate_paper_filename_def)
  then show ?thesis by (simp only: generate_unknown)
qed

lemma generate_fallback:
  assumes "strip t \<noteq> []" and "clean_name (strip t) = [] \<or> clean_name (strip t) = ''.''"
  shows "generate_paper_filename (Some t) = UNNAMED @ ''.pdf''"
proof -
  have t: "t \<noteq> []" using assms(1) by (auto simp: strip_def)
  have s: "sanitize_filename (strip t) = UNNAMED"
    using assms by (auto simp: sanitize_filename_def Let_def)
  have l: "length UNNAMED \<le> MAX_TITLE_LENGTH - 4"
    by (simp add: UNNAMED_def MAX_TITLE_LENGTH_def)
  show ?thesis
    using t assms(1) l by (simp add: generate_paper_filename_def Let_def s strip_chars_UNNAMED)
qed

text \<open>
  C9, as amended. The sanitizer's result is never empty and never a single period: for an
  empty name, and for a name whose cleaned form is empty or a single period, it is the
  fallback label, and otherwise it is the cleaned form as it is, punctuation or not. For a
  title that is not blank and whose stripped form is cleaned to the empty name or to a
  single period, the builder generates the label with the extension; for a missing or
  blank title it generates its own label with the extension.
\<close>

theorem fallback_label:
  "sanitize_filename s \<noteq> [] \<and> sanitize_filename s \<noteq> ''.'' \<and>
   (s = [] \<or> clean_name s = [] \<or> clean_name s = ''.'' \<longrightarrow> sanitize_filename s = UNNAMED) \<and>
   (s \<noteq> [] \<and> clean_name s \<noteq> [] \<and> clean_name s \<noteq> ''.'' \<longrightarrow>
      sanitize_filename s = clean_name s) \<and>
   (strip t \<noteq> [] \<and> (clean_name (strip t) = [] \<or> clean_name (strip t) = ''.'') \<longrightarrow>
      generate_paper_filename (Some t) = UNNAMED @ ''.pdf'') \<and>
   (strip t = [] \<longrightarrow> generate_paper_filename (Some t) = UNKNOWN_TITLE @ ''.pdf'') \<and>
   generate_paper_filename None = UNKNOWN_TITLE @ ''.pdf''"
proof -
  have "sanitize_filename s \<noteq> []" and "sanitize_filename s \<noteq> ''.''"
    by (auto simp: sanitize_filename_def Let_def UNNAMED_def)
  moreover have "s = [] \<or> clean_name s = [] \<or> clean_name s = ''.'' \<longrightarrow>
      sanitize_filename s = UNNAMED"
    by (auto simp: sanitize_filename_def Let_def)
  moreover have "s \<noteq> [] \<and> clean_name s \<noteq> [] \<and> clean_name s \<noteq> ''.'' \<longrightarrow>
      sanitize_filename s = clean_name s"
    by (auto simp: sanitize_filename_def Let_def)
  ultimately show ?thesis
    using generate_fallback [of t] generate_blank [of t] generate_unknown by blast
qed

theorem fallback_label_witness:
  "clean_name ''? .'' = ''.'' \<and> sanitize_filename ''? .'' = UNNAMED \<and>
   generate_paper_filename (Some '' ? . '') = UNNAMED @ ''.pdf'' \<and>
   generate_paper_filename (Some ''   '') = UNKNOWN_TITLE @ ''.pdf''"
proof -
  have a: "clean_name ''? .'' = ''.''" by code_simp
  have b: "strip '' ? . '' = ''? .''" by code_simp
  have c: "strip ''   '' = []" by code_simp
  show ?thesis
    using fallback_label [of "''? .''" "'' ? . ''"] fallback_label [of "''? .''" "''   ''"] a b c
    by simp
qed

text \<open>
  The claim as stated fails: the titles \<^verbatim>\<open>!!!\<close> and \<^verbatim>\<open>_\<close> are sanitized to themselves,
  which is punctuation only, and the builder does not map them to the label; for the
  second the base name comes out empty.
\<close>

theorem fallback_label_counterexample:
  "list_all (\<lambda>c. c \<in> set punctuation) ''!!!'' \<and>
   sanitize_filename ''!!!'' = ''!!!'' \<and>
   generate_paper_filename (Some ''!!!'') = ''!!!.pdf'' \<and>
   list_all (\<lambda>c. c \<in> set punctuation) ''_'' \<and>
   sanitize_filename ''_'' = ''_'' \<and>
   generate_paper_filename (Some ''_'') = ''.pdf''"
  by code_simp

end
